theory Spec2Isabelle
  imports Main "HOL-Library.Word"
begin

unbundle bit_operations_syntax

section \<open>The YM2149 emulation of sound.c (the table driven variant)\<close>

text \<open>
  The embedding follows the part of \<^verbatim>\<open>sound.c\<close> that is compiled when
  \<^verbatim>\<open>OLD_SOUND\<close> is not defined.  Values of the C types \<^verbatim>\<open>int\<close> and \<^verbatim>\<open>yms64\<close>
  are mathematical integers, which is exact as long as no intermediate result
  leaves the range of the C type; a value stored into an unsigned type of the
  emulator keeps its low bits, and the products of the frame scheduler, which
  grow with the cycle counter, keep 32 bits.

  What the file uses and other files declare is a parameter here: the replay
  frequency \<^verbatim>\<open>YM_REPLAY_FREQ\<close> (an entry of the table \<^verbatim>\<open>SoundPlayBackFrequencies\<close>,
  selected by the configuration of the sound output), \<^verbatim>\<open>nScreenRefreshRate\<close>,
  \<^verbatim>\<open>CYCLES_PER_FRAME\<close>, \<^verbatim>\<open>MIXBUFFER_SIZE\<close> and the contents of the table \<^verbatim>\<open>ymout5\<close>.
\<close>

text \<open>
  Modelled from the spec: the integer types \<^verbatim>\<open>ymu8\<close>, \<^verbatim>\<open>ymu16\<close>, \<^verbatim>\<open>ymu32\<close> and
  \<^verbatim>\<open>ymsample\<close> are declared in \<^verbatim>\<open>sound.h\<close>, which is not among the sources.  The
  registers are unsigned 8-bit values, the words of three volumes are 16 bits
  wide, the phase accumulators and steps 32 bits, and a sample is a signed 16-bit
  value.
\<close>

type_synonym ymu8 = "8 word"
type_synonym ymu16 = "16 word"
type_synonym ymu32 = "32 word"
type_synonym ymsample = "16 word"

text \<open>Division of C: the quotient is truncated towards zero.\<close>

definition c_div :: "int \<Rightarrow> int \<Rightarrow> int" where
  "c_div a b = sgn a * sgn b * (\<bar>a\<bar> div \<bar>b\<bar>)"

text \<open>
  A product of two \<^verbatim>\<open>int\<close> of 32 bits, as the machine multiplication leaves it:
  the low 32 bits of the exact product, read as a signed number.
\<close>

definition int32 :: "int \<Rightarrow> int" where
  "int32 x = (x + 2 ^ 31) mod 2 ^ 32 - 2 ^ 31"

subsection \<open>Constants and tables\<close>

definition YM_ATARI_CLOCK :: int where
  "YM_ATARI_CLOCK = 2000000"

definition YM_MASK_1VOICE :: ymu32 where
  "YM_MASK_1VOICE = 0x1f"

definition YM_MASK_A :: ymu16 where
  "YM_MASK_A = 0x1f"

definition YM_MASK_B :: ymu16 where
  "YM_MASK_B = push_bit 5 0x1f"

definition YM_MASK_C :: ymu16 where
  "YM_MASK_C = push_bit 10 0x1f"

definition YM_MERGE_VOICE :: "int \<Rightarrow> int \<Rightarrow> int \<Rightarrow> int" where
  "YM_MERGE_VOICE C B A = push_bit 10 C OR push_bit 5 B OR A"

definition YmVolume4to5 :: "ymu16 list" where
  "YmVolume4to5 = [0, 2, 5, 7, 9, 11, 13, 15, 17, 19, 21, 23, 25, 27, 29, 31]"

subsection \<open>Step computation\<close>

text \<open>
  \<^verbatim>\<open>per\<close> is an \<^verbatim>\<open>int\<close>, the dividend a \<^verbatim>\<open>yms64\<close>; the quotient is returned as
  \<^verbatim>\<open>ymu32\<close>, which keeps its low 32 bits.  The product \<^verbatim>\<open>per * YM_REPLAY_FREQ\<close>
  is an \<^verbatim>\<open>int\<close>: it stays in range for every replay frequency up to 524287.
\<close>

text \<open>The period of a tone: \<^verbatim>\<open>per = rHigh&15; per = (per<<8)+rLow\<close>.\<close>

definition tone_period :: "ymu8 \<Rightarrow> ymu8 \<Rightarrow> int" where
  "tone_period rHigh rLow = push_bit 8 (uint (rHigh AND 15)) + uint rLow"

definition Ym2149_ToneStepCompute :: "int \<Rightarrow> ymu8 \<Rightarrow> ymu8 \<Rightarrow> ymu32" where
  "Ym2149_ToneStepCompute replay_freq rHigh rLow =
     (let per = tone_period rHigh rLow
      in if per \<le> 5 then 0
         else word_of_int (c_div (push_bit (15 + 16 - 3) YM_ATARI_CLOCK) (per * replay_freq)))"

definition Ym2149_NoiseStepCompute :: "int \<Rightarrow> ymu8 \<Rightarrow> ymu32" where
  "Ym2149_NoiseStepCompute replay_freq rNoise =
     (let per = uint (rNoise AND 0x1f)
      in if per < 3 then 0
         else word_of_int (c_div (push_bit (16 - 1 - 3) YM_ATARI_CLOCK) (per * replay_freq)))"

text \<open>
  In the branch for period 0 the divisor is \<^verbatim>\<open>8 * 1/2 * YM_REPLAY_FREQ\<close>, which C
  reads from the left: \<^verbatim>\<open>((8 * 1) / 2) * YM_REPLAY_FREQ\<close>.
\<close>

definition Ym2149_EnvStepCompute :: "int \<Rightarrow> ymu8 \<Rightarrow> ymu8 \<Rightarrow> ymu32" where
  "Ym2149_EnvStepCompute replay_freq rHigh rLow =
     (let per = uint rHigh;
          per = push_bit 8 per + uint rLow;
          step = push_bit 24 YM_ATARI_CLOCK
      in if per > 0
         then word_of_int (c_div step (8 * per * replay_freq))
         else word_of_int (c_div step (c_div (8 * 1) 2 * replay_freq)))"

subsection \<open>Envelope table\<close>

datatype env_kind = ENV_GODOWN | ENV_GOUP | ENV_DOWN | ENV_UP

definition YmEnvDef :: "env_kind list list" where
  "YmEnvDef =
    [[ENV_GODOWN, ENV_DOWN, ENV_DOWN], [ENV_GODOWN, ENV_DOWN, ENV_DOWN],
     [ENV_GODOWN, ENV_DOWN, ENV_DOWN], [ENV_GODOWN, ENV_DOWN, ENV_DOWN],
     [ENV_GOUP, ENV_DOWN, ENV_DOWN], [ENV_GOUP, ENV_DOWN, ENV_DOWN],
     [ENV_GOUP, ENV_DOWN, ENV_DOWN], [ENV_GOUP, ENV_DOWN, ENV_DOWN],
     [ENV_GODOWN, ENV_GODOWN, ENV_GODOWN], [ENV_GODOWN, ENV_DOWN, ENV_DOWN],
     [ENV_GODOWN, ENV_GOUP, ENV_GODOWN], [ENV_GODOWN, ENV_UP, ENV_UP],
     [ENV_GOUP, ENV_GOUP, ENV_GOUP], [ENV_GOUP, ENV_UP, ENV_UP],
     [ENV_GOUP, ENV_GODOWN, ENV_GOUP], [ENV_GOUP, ENV_DOWN, ENV_DOWN]]"

text \<open>The \<^verbatim>\<open>switch\<close> of \<^verbatim>\<open>YM2149_EnvBuild\<close>: start volume and increment of a block.\<close>

fun env_start :: "env_kind \<Rightarrow> int \<times> int" where
  "env_start ENV_GODOWN = (31, -1)"
| "env_start ENV_GOUP = (0, 1)"
| "env_start ENV_DOWN = (0, 0)"
| "env_start ENV_UP = (31, 0)"

text \<open>The inner loop: \<open>n\<close> more volumes of a block, each stored as \<^verbatim>\<open>ymu16\<close>.\<close>

fun env_block :: "nat \<Rightarrow> int \<Rightarrow> int \<Rightarrow> ymu16 list" where
  "env_block 0 vol inc = []"
| "env_block (Suc n) vol inc =
     word_of_int (YM_MERGE_VOICE vol vol vol) # env_block n (vol + inc) inc"

definition YM2149_EnvBuild :: "ymu16 list list" where
  "YM2149_EnvBuild =
     map (\<lambda>env. concat (map (\<lambda>block.
            case env_start (YmEnvDef ! env ! block) of (vol, inc) \<Rightarrow> env_block 32 vol inc)
          [0 ..< 3]))
       [0 ..< 16]"

subsection \<open>State of the emulator\<close>

record ym_state =
  SoundRegs :: "ymu8 list"
  stepA :: ymu32
  stepB :: ymu32
  stepC :: ymu32
  posA :: ymu32
  posB :: ymu32
  posC :: ymu32
  mixerTA :: ymu32
  mixerTB :: ymu32
  mixerTC :: ymu32
  mixerNA :: ymu32
  mixerNB :: ymu32
  mixerNC :: ymu32
  noiseStep :: ymu32
  noisePos :: ymu32
  currentNoise :: ymu32
  RndRack :: ymu32
  envStep :: ymu32
  envPos :: ymu32
  envShape :: int
  EnvMask3Voices :: ymu16
  Vol3Voices :: ymu16
  bEnvelopeFreqFlag :: bool
  dc_buffer :: "ymsample list"
  dc_pos :: int
  dc_sum :: int
  m_lowPassFilter :: "ymsample \<times> ymsample"
  UseLowPassFilter :: bool

text \<open>The variables as the C program starts with them: static storage is zero.\<close>

definition ym_initial :: ym_state where
  "ym_initial =
     \<lparr>SoundRegs = replicate 14 0,
      stepA = 0, stepB = 0, stepC = 0, posA = 0, posB = 0, posC = 0,
      mixerTA = 0, mixerTB = 0, mixerTC = 0, mixerNA = 0, mixerNB = 0, mixerNC = 0,
      noiseStep = 0, noisePos = 0, currentNoise = 0, RndRack = 0,
      envStep = 0, envPos = 0, envShape = 0,
      EnvMask3Voices = 0, Vol3Voices = 0, bEnvelopeFreqFlag = False,
      dc_buffer = replicate 512 0, dc_pos = 0, dc_sum = 0,
      m_lowPassFilter = (0, 0), UseLowPassFilter = False\<rparr>"

subsection \<open>Register writes\<close>

text \<open>A tone step of zero pins the position of the voice at \<^verbatim>\<open>1u<<31\<close>.\<close>

definition Sound_WriteReg :: "int \<Rightarrow> int \<Rightarrow> ymu8 \<Rightarrow> ym_state \<Rightarrow> ym_state" where
  "Sound_WriteReg replay_freq reg data st =
    (if reg = 0 then
       (let regs = (SoundRegs st)[0 := data];
            step = Ym2149_ToneStepCompute replay_freq (regs ! 1) (regs ! 0)
        in st\<lparr>SoundRegs := regs, stepA := step,
               posA := (if step = 0 then push_bit 31 1 else posA st)\<rparr>)
     else if reg = 1 then
       (let regs = (SoundRegs st)[1 := data AND 0x0f];
            step = Ym2149_ToneStepCompute replay_freq (regs ! 1) (regs ! 0)
        in st\<lparr>SoundRegs := regs, stepA := step,
               posA := (if step = 0 then push_bit 31 1 else posA st)\<rparr>)
     else if reg = 2 then
       (let regs = (SoundRegs st)[2 := data];
            step = Ym2149_ToneStepCompute replay_freq (regs ! 3) (regs ! 2)
        in st\<lparr>SoundRegs := regs, stepB := step,
               posB := (if step = 0 then push_bit 31 1 else posB st)\<rparr>)
     else if reg = 3 then
       (let regs = (SoundRegs st)[3 := data AND 0x0f];
            step = Ym2149_ToneStepCompute replay_freq (regs ! 3) (regs ! 2)
        in st\<lparr>SoundRegs := regs, stepB := step,
               posB := (if step = 0 then push_bit 31 1 else posB st)\<rparr>)
     else if reg = 4 then
       (let regs = (SoundRegs st)[4 := data];
            step = Ym2149_ToneStepCompute replay_freq (regs ! 5) (regs ! 4)
        in st\<lparr>SoundRegs := regs, stepC := step,
               posC := (if step = 0 then push_bit 31 1 else posC st)\<rparr>)
     else if reg = 5 then
       (let regs = (SoundRegs st)[5 := data AND 0x0f];
            step = Ym2149_ToneStepCompute replay_freq (regs ! 5) (regs ! 4)
        in st\<lparr>SoundRegs := regs, stepC := step,
               posC := (if step = 0 then push_bit 31 1 else posC st)\<rparr>)
     else if reg = 6 then
       (let regs = (SoundRegs st)[6 := data AND 0x1f];
            step = Ym2149_NoiseStepCompute replay_freq (regs ! 6)
        in if step = 0
           then st\<lparr>SoundRegs := regs, noiseStep := step, noisePos := 0,
                   currentNoise := 0xffff\<rparr>
           else st\<lparr>SoundRegs := regs, noiseStep := step\<rparr>)
     else if reg = 7 then
       st\<lparr>SoundRegs := (SoundRegs st)[7 := data AND 0x3f],
          mixerTA := (if data AND push_bit 0 1 \<noteq> 0 then 0xffff else 0),
          mixerTB := (if data AND push_bit 1 1 \<noteq> 0 then 0xffff else 0),
          mixerTC := (if data AND push_bit 2 1 \<noteq> 0 then 0xffff else 0),
          mixerNA := (if data AND push_bit 3 1 \<noteq> 0 then 0xffff else 0),
          mixerNB := (if data AND push_bit 4 1 \<noteq> 0 then 0xffff else 0),
          mixerNC := (if data AND push_bit 5 1 \<noteq> 0 then 0xffff else 0)\<rparr>
     else if reg = 8 then
       (let regs = (SoundRegs st)[8 := data AND 0x1f]
        in if data AND 0x10 \<noteq> 0
           then st\<lparr>SoundRegs := regs,
                   EnvMask3Voices := EnvMask3Voices st OR YM_MASK_A,
                   Vol3Voices := Vol3Voices st AND NOT YM_MASK_A\<rparr>
           else st\<lparr>SoundRegs := regs,
                   EnvMask3Voices := EnvMask3Voices st AND NOT YM_MASK_A,
                   Vol3Voices := (Vol3Voices st AND NOT YM_MASK_A)
                                  OR YmVolume4to5 ! unat (regs ! 8)\<rparr>)
     else if reg = 9 then
       (let regs = (SoundRegs st)[9 := data AND 0x1f]
        in if data AND 0x10 \<noteq> 0
           then st\<lparr>SoundRegs := regs,
                   EnvMask3Voices := EnvMask3Voices st OR YM_MASK_B,
                   Vol3Voices := Vol3Voices st AND NOT YM_MASK_B\<rparr>
           else st\<lparr>SoundRegs := regs,
                   EnvMask3Voices := EnvMask3Voices st AND NOT YM_MASK_B,
                   Vol3Voices := (Vol3Voices st AND NOT YM_MASK_B)
                                  OR push_bit 5 (YmVolume4to5 ! unat (regs ! 9))\<rparr>)
     else if reg = 10 then
       (let regs = (SoundRegs st)[10 := data AND 0x1f]
        in if data AND 0x10 \<noteq> 0
           then st\<lparr>SoundRegs := regs,
                   EnvMask3Voices := EnvMask3Voices st OR YM_MASK_C,
                   Vol3Voices := Vol3Voices st AND NOT YM_MASK_C\<rparr>
           else st\<lparr>SoundRegs := regs,
                   EnvMask3Voices := EnvMask3Voices st AND NOT YM_MASK_C,
                   Vol3Voices := (Vol3Voices st AND NOT YM_MASK_C)
                                  OR push_bit 10 (YmVolume4to5 ! unat (regs ! 10))\<rparr>)
     else if reg = 11 then
       (let regs = (SoundRegs st)[11 := data]
        in st\<lparr>SoundRegs := regs,
               envStep := Ym2149_EnvStepCompute replay_freq (regs ! 12) (regs ! 11)\<rparr>)
     else if reg = 12 then
       (let regs = (SoundRegs st)[12 := data]
        in st\<lparr>SoundRegs := regs,
               envStep := Ym2149_EnvStepCompute replay_freq (regs ! 12) (regs ! 11)\<rparr>)
     else if reg = 13 then
       (let regs = (SoundRegs st)[13 := data AND 0xf]
        in st\<lparr>SoundRegs := regs, envPos := 0, envShape := uint (regs ! 13),
               bEnvelopeFreqFlag := True\<rparr>)
     else st)"

text \<open>A sequence of register writes, the first of the list first.\<close>

fun Sound_WriteRegs :: "int \<Rightarrow> (int \<times> ymu8) list \<Rightarrow> ym_state \<Rightarrow> ym_state" where
  "Sound_WriteRegs replay_freq [] st = st"
| "Sound_WriteRegs replay_freq ((reg, data) # ws) st =
     Sound_WriteRegs replay_freq ws (Sound_WriteReg replay_freq reg data st)"

subsection \<open>DC adjuster and low pass filter\<close>

text \<open>
  The arithmetic on samples is done on \<^verbatim>\<open>int\<close>, where \<open>sint\<close> reads a sample, and
  the result is stored back as a sample; \<^verbatim>\<open>>>\<close> on a negative \<^verbatim>\<open>int\<close> is the
  arithmetic shift.
\<close>

definition DC_ADJUST_BUFFERLEN :: int where
  "DC_ADJUST_BUFFERLEN = 512"

definition DcAdjuster_AddSample :: "ymsample \<Rightarrow> ym_state \<Rightarrow> ym_state" where
  "DcAdjuster_AddSample sample st =
     st\<lparr>dc_sum := dc_sum st - sint (dc_buffer st ! nat (dc_pos st)) + sint sample,
        dc_buffer := (dc_buffer st)[nat (dc_pos st) := sample],
        dc_pos := (dc_pos st + 1) AND (DC_ADJUST_BUFFERLEN - 1)\<rparr>"

definition DcAdjuster_GetDcLevel :: "ym_state \<Rightarrow> ymsample" where
  "DcAdjuster_GetDcLevel st = word_of_int (c_div (dc_sum st) DC_ADJUST_BUFFERLEN)"

definition LowPassFilter :: "ymsample \<Rightarrow> ym_state \<Rightarrow> ymsample \<times> ym_state" where
  "LowPassFilter inp st =
     (case m_lowPassFilter st of (m0, m1) \<Rightarrow>
        (word_of_int (drop_bit 2 (sint m0) + drop_bit 1 (sint m1) + drop_bit 2 (sint inp)),
         st\<lparr>m_lowPassFilter := (m1, inp)\<rparr>))"

subsection \<open>One sample\<close>

definition YM2149_RndCompute :: "ym_state \<Rightarrow> ymu32 \<times> ym_state" where
  "YM2149_RndCompute st =
     (let bit = (RndRack st AND 1) XOR (drop_bit 2 (RndRack st) AND 1)
      in (if bit \<noteq> 0 then 0 else 0xffff,
          st\<lparr>RndRack := drop_bit 1 (RndRack st) OR push_bit 16 bit\<rparr>))"

text \<open>The noise update at the start of \<^verbatim>\<open>YM2149_NextSample\<close>.\<close>

definition noise_tick :: "ym_state \<Rightarrow> ym_state" where
  "noise_tick st =
     (if noisePos st AND 0xffff0000 \<noteq> 0
      then (case YM2149_RndCompute st of (r, st') \<Rightarrow>
              st'\<lparr>currentNoise := currentNoise st' XOR r,
                  noisePos := noisePos st' AND 0xffff\<rparr>)
      else st)"

text \<open>
  The output state of one voice, \<^verbatim>\<open>((((yms32)pos)>>31) | mixerT) & (bn | mixerN)\<close>;
  the shift of the signed value copies the sign bit.
\<close>

definition voice_bt :: "ymu32 \<Rightarrow> ymu32 \<Rightarrow> ymu32 \<Rightarrow> ymu32 \<Rightarrow> ymu32" where
  "voice_bt pos mixerT bn mixerN = (signed_drop_bit 31 pos OR mixerT) AND (bn OR mixerN)"

text \<open>
  The index \<^verbatim>\<open>Tone3Voices\<close> into the conversion table, computed from the state
  after the noise update.  \<^verbatim>\<open>YmEnvWaves\<close> is the table \<^verbatim>\<open>YM2149_EnvBuild\<close> has filled;
  the read at \<^verbatim>\<open>[envShape][envPos>>24]\<close> is inside it when \<open>envShape < 16\<close> and
  \<open>envPos < 96 << 24\<close>.
\<close>

definition Tone3Voices :: "ym_state \<Rightarrow> ymu16" where
  "Tone3Voices st =
     (let bn = currentNoise st;
          Env3Voices = YM2149_EnvBuild ! nat (envShape st) ! unat (drop_bit 24 (envPos st));
          Env3Voices = Env3Voices AND EnvMask3Voices st;
          bt = voice_bt (posA st) (mixerTA st) bn (mixerNA st);
          t = ucast (bt AND YM_MASK_1VOICE);
          bt = voice_bt (posB st) (mixerTB st) bn (mixerNB st);
          t = t OR ucast (push_bit 5 (bt AND YM_MASK_1VOICE));
          bt = voice_bt (posC st) (mixerTC st) bn (mixerNC st);
          t = t OR ucast (push_bit 10 (bt AND YM_MASK_1VOICE))
      in t AND (Env3Voices OR Vol3Voices st))"

text \<open>The increments of the positions, with the loop of the envelope.\<close>

definition env_advance :: "ymu32 \<Rightarrow> ymu32 \<Rightarrow> ymu32" where
  "env_advance pos step =
     (let pos = pos + step
      in if pos \<ge> push_bit 24 (3 * 32) then pos - push_bit 24 (2 * 32) else pos)"

definition advance_positions :: "ym_state \<Rightarrow> ym_state" where
  "advance_positions st =
     st\<lparr>posA := posA st + stepA st,
        posB := posB st + stepB st,
        posC := posC st + stepC st,
        noisePos := noisePos st + noiseStep st,
        envPos := env_advance (envPos st) (envStep st)\<rparr>"

text \<open>
  \<^verbatim>\<open>ymout5\<close> is the conversion table of \<open>32 * 32 * 32\<close> samples that
  \<^verbatim>\<open>Ym2149_Init\<close> has built; its contents are a parameter.
\<close>

definition YM2149_NextSample :: "ymsample list \<Rightarrow> ym_state \<Rightarrow> ymsample \<times> ym_state" where
  "YM2149_NextSample ymout5 st =
     (let st = noise_tick st;
          sample = ymout5 ! unat (Tone3Voices st);
          st = advance_positions st
      in if UseLowPassFilter st
         then (let st = DcAdjuster_AddSample sample st
               in LowPassFilter (word_of_int (sint sample - sint (DcAdjuster_GetDcLevel st))) st)
         else (sample, st))"

subsection \<open>Frame scheduler and ring buffer\<close>

record sound_config =
  replay_freq :: int
  nScreenRefreshRate :: int
  CYCLES_PER_FRAME :: int
  MIXBUFFER_SIZE :: int

definition SAMPLES_PER_FRAME :: "sound_config \<Rightarrow> int" where
  "SAMPLES_PER_FRAME cfg = c_div (replay_freq cfg + 35) (nScreenRefreshRate cfg)"

definition c_mod :: "int \<Rightarrow> int \<Rightarrow> int" where
  "c_mod a b = a - b * c_div a b"

record sound_state =
  ym :: ym_state
  Cycles_Sound :: int
  nGeneratedSamples :: int
  nSamplesToGenerate :: int
  ActiveSndBufIdx :: int
  MixBuffer :: "(ymsample \<times> ymsample) list"

text \<open>
  \<open>Cycles_Sound\<close> is the counter \<^verbatim>\<open>CYCLES_COUNTER_SOUND\<close>.  The two products of
  \<^verbatim>\<open>Sound_SetSamplesPassed\<close> are products of \<^verbatim>\<open>int\<close>, which keep 32 bits.
\<close>

definition Sound_SetSamplesPassed :: "sound_config \<Rightarrow> sound_state \<Rightarrow> sound_state" where
  "Sound_SetSamplesPassed cfg s =
     (let nSoundCycles = Cycles_Sound s;
          nSamplesPerFrame = SAMPLES_PER_FRAME cfg;
          n = c_div (int32 (nSoundCycles * nSamplesPerFrame)) (CYCLES_PER_FRAME cfg);
          n = (if n > nSamplesPerFrame then nSamplesPerFrame else n);
          nSampleCycles = c_div (int32 (n * CYCLES_PER_FRAME cfg)) nSamplesPerFrame;
          nSoundCycles = nSoundCycles - nSampleCycles;
          n = (if n > MIXBUFFER_SIZE cfg - nGeneratedSamples s
               then (let n = MIXBUFFER_SIZE cfg - nGeneratedSamples s
                     in if n < 0 then 0 else n)
               else n)
      in s\<lparr>Cycles_Sound := nSoundCycles, nSamplesToGenerate := n\<rparr>)"

text \<open>
  The loop of \<^verbatim>\<open>Sound_GenerateSamples\<close>, with \<open>k\<close> samples left to write from
  loop index \<open>i\<close>.
\<close>

fun generate_loop :: "sound_config \<Rightarrow> ymsample list \<Rightarrow> int \<Rightarrow> nat \<Rightarrow> sound_state \<Rightarrow> sound_state" where
  "generate_loop cfg ymout5 i 0 s = s"
| "generate_loop cfg ymout5 i (Suc k) s =
     (let idx = c_mod (ActiveSndBufIdx s + i) (MIXBUFFER_SIZE cfg)
      in case YM2149_NextSample ymout5 (ym s) of (sample, st) \<Rightarrow>
           generate_loop cfg ymout5 (i + 1) k
             (s\<lparr>ym := st, MixBuffer := (MixBuffer s)[nat idx := (sample, sample)]\<rparr>))"

text \<open>
  \<^verbatim>\<open>DmaSnd_GenerateSamples\<close>, which mixes the DMA sound into the same range of the
  buffer, belongs to another file and is left out.
\<close>

definition Sound_GenerateSamples :: "sound_config \<Rightarrow> ymsample list \<Rightarrow> sound_state \<Rightarrow> sound_state" where
  "Sound_GenerateSamples cfg ymout5 s =
     (if nSamplesToGenerate s \<le> 0 then s
      else (let s = generate_loop cfg ymout5 0 (nat (nSamplesToGenerate s)) s
            in s\<lparr>ActiveSndBufIdx :=
                    c_mod (ActiveSndBufIdx s + nSamplesToGenerate s) (MIXBUFFER_SIZE cfg),
                  nGeneratedSamples := nGeneratedSamples s + nSamplesToGenerate s\<rparr>))"

definition Sound_Update :: "sound_config \<Rightarrow> ymsample list \<Rightarrow> sound_state \<Rightarrow> sound_state" where
  "Sound_Update cfg ymout5 s = Sound_GenerateSamples cfg ymout5 (Sound_SetSamplesPassed cfg s)"

subsection \<open>Start of a recording\<close>

text \<open>
  \<^verbatim>\<open>File_DoesFileExtensionMatch\<close>, \<^verbatim>\<open>YMFormat_BeginRecording\<close> and
  \<^verbatim>\<open>WAVFormat_OpenFile\<close> belong to other files: the test of the extension is a
  parameter, and the two format writers are parameters that return their result
  and may change anything.  A missing file name is \<open>None\<close>.  The two messages
  of \<^verbatim>\<open>Sound_BeginRecording\<close> are appended to a log.
\<close>

datatype log_event = Illegal_sound_recording_file_name | Unknown_Sound_Recording_format

record rec_world =
  sound :: sound_state
  messages :: "log_event list"

definition Sound_BeginRecording ::
  "(string \<Rightarrow> string \<Rightarrow> bool) \<Rightarrow> (string \<Rightarrow> rec_world \<Rightarrow> bool \<times> rec_world) \<Rightarrow>
   (string \<Rightarrow> rec_world \<Rightarrow> bool \<times> rec_world) \<Rightarrow> string option \<Rightarrow> rec_world \<Rightarrow>
   bool \<times> rec_world" where
  "Sound_BeginRecording File_DoesFileExtensionMatch YMFormat_BeginRecording WAVFormat_OpenFile
     pszCaptureFileName w =
     (case pszCaptureFileName of
        None \<Rightarrow> (False, w\<lparr>messages := messages w @ [Illegal_sound_recording_file_name]\<rparr>)
      | Some name \<Rightarrow>
          if length name \<le> 3
          then (False, w\<lparr>messages := messages w @ [Illegal_sound_recording_file_name]\<rparr>)
          else if File_DoesFileExtensionMatch name ''.ym''
          then YMFormat_BeginRecording name w
          else if File_DoesFileExtensionMatch name ''.wav''
          then WAVFormat_OpenFile name w
          else (False, w\<lparr>messages := messages w @ [Unknown_Sound_Recording_format]\<rparr>))"

text \<open>
  Instances of the parameters for concrete runs: the extension is matched
  against the end of the name; a format writer that reports success and one that
  reports failure.
\<close>

definition ends_with :: "string \<Rightarrow> string \<Rightarrow> bool" where
  "ends_with name ext =
     (length ext \<le> length name \<and> drop (length name - length ext) name = ext)"

definition writer_ok :: "string \<Rightarrow> rec_world \<Rightarrow> bool \<times> rec_world" where
  "writer_ok name w = (True, w)"

definition writer_fails :: "string \<Rightarrow> rec_world \<Rightarrow> bool \<times> rec_world" where
  "writer_fails name w = (False, w)"

text \<open>
  A conversion table, a configuration and a state for concrete runs: a table of
  zeros; 44100 Hz at 50 frames per second, 160256 cycles per frame and a ring
  buffer of 8192 samples; the buffer cleared.
\<close>

definition ymout5_silent :: "ymsample list" where
  "ymout5_silent = replicate (32 * 32 * 32) 0"

definition cfg_44100 :: sound_config where
  "cfg_44100 = \<lparr>replay_freq = 44100, nScreenRefreshRate = 50, CYCLES_PER_FRAME = 160256,
                 MIXBUFFER_SIZE = 8192\<rparr>"

definition sound_initial :: sound_state where
  "sound_initial =
     \<lparr>ym = ym_initial, Cycles_Sound = 0, nGeneratedSamples = 0, nSamplesToGenerate = 0,
      ActiveSndBufIdx = 0, MixBuffer = replicate 8192 (0, 0)\<rparr>"

definition rec_initial :: rec_world where
  "rec_initial = \<lparr>sound = sound_initial, messages = []\<rparr>"

subsection \<open>Predicates of the properties\<close>

text \<open>The bits of voice 0 (A), 1 (B) or 2 (C) in the two words of three volumes.\<close>

definition voice_mask :: "nat \<Rightarrow> ymu16" where
  "voice_mask v = (if v = 0 then YM_MASK_A else if v = 1 then YM_MASK_B else YM_MASK_C)"


text \<open>
  What the program does to the emulator between two states: it writes a register
  or it generates a sample.  The states it can be in are those that a list of
  such actions makes of the start.
\<close>

datatype ym_action = Write_reg int ymu8 | Next_sample

fun run_actions :: "int \<Rightarrow> ymsample list \<Rightarrow> ym_action list \<Rightarrow> ym_state \<Rightarrow> ym_state" where
  "run_actions freq ymout5 [] st = st"
| "run_actions freq ymout5 (Write_reg reg data # acts) st =
     run_actions freq ymout5 acts (Sound_WriteReg freq reg data st)"
| "run_actions freq ymout5 (Next_sample # acts) st =
     run_actions freq ymout5 acts (snd (YM2149_NextSample ymout5 st))"

section \<open>Properties\<close>

lemma c_div_pos: "0 \<le> a \<Longrightarrow> 0 < b \<Longrightarrow> c_div a b = a div b"
  by (cases "a = 0") (simp_all add: c_div_def)

subsection \<open>Arithmetic of the truncated quotients\<close>

lemma le_zdiv_iff:
  fixes i k l :: int
  assumes "0 < l"
  shows "i \<le> k div l \<longleftrightarrow> i * l \<le> k"
proof
  assume "i \<le> k div l"
  then have "i * l \<le> (k div l) * l" using assms by (simp add: mult_right_mono)
  also have "\<dots> \<le> k"
  proof -
    have "k = (k div l) * l + k mod l" by simp
    moreover have "0 \<le> k mod l" using assms by simp
    ultimately show ?thesis by linarith
  qed
  finally show "i * l \<le> k" .
next
  assume "i * l \<le> k"
  then have "(i * l) div l \<le> k div l" using assms by (rule zdiv_mono1)
  then show "i \<le> k div l" using assms by simp
qed

lemma div_strict_antimono:
  fixes N p q F :: int
  assumes "0 < F" "0 < p" "p < q" "q * (q - 1) * F \<le> N"
  shows "N div (q * F) < N div (p * F)"
proof -
  define d where "d = N div (q * F)"
  have qF: "0 < q * F" and pF: "0 < p * F" using assms by simp_all
  have "(q - 1) * (q * F) \<le> N" using assms(4) by (simp add: algebra_simps)
  then have d_ge: "q - 1 \<le> d" unfolding d_def using qF by (simp add: le_zdiv_iff)
  have "d * (q * F) \<le> N" unfolding d_def using qF le_zdiv_iff [of "q * F" "N div (q * F)" N] by simp
  moreover have "(d + 1) * (p * F) \<le> d * (q * F)"
  proof -
    have pq: "p \<le> q - 1" using assms by simp
    have d0: "0 \<le> d" using d_ge assms by simp
    have "d * p \<le> d * (q - 1)" using pq d0 by (rule mult_left_mono)
    moreover have "p \<le> d" using pq d_ge by simp
    ultimately have "d * p + p \<le> d * (q - 1) + d" by simp
    then have "(d * p + p) * F \<le> (d * (q - 1) + d) * F" using assms(1) by (simp add: mult_right_mono)
    then show ?thesis by (simp add: algebra_simps)
  qed
  ultimately have "(d + 1) * (p * F) \<le> N" by simp
  then have "d + 1 \<le> N div (p * F)" using pF by (simp add: le_zdiv_iff)
  then show ?thesis unfolding d_def by simp
qed

subsection \<open>Tone steps\<close>

lemma tone_period_range: "0 \<le> tone_period h l \<and> tone_period h l \<le> 4095"
proof -
  have "uint (h AND 15) \<le> uint (15 :: ymu8)"
    by (rule word_and_le1 [THEN word_le_def [THEN iffD1]])
  moreover have "uint l < 256" using uint_bounded [of l] by simp
  moreover have "0 \<le> uint l" "0 \<le> uint (h AND 15)" by simp_all
  ultimately show ?thesis by (simp add: tone_period_def push_bit_eq_mult)
qed

lemma uint_step32: "0 \<le> x \<Longrightarrow> x < 4294967296 \<Longrightarrow> uint (word_of_int x :: ymu32) = x"
  by (simp add: uint_word_of_int take_bit_eq_mod)

lemma tone_step_uint:
  assumes "125000 < tone_period h l * F" "5 < tone_period h l"
  shows "uint (Ym2149_ToneStepCompute F h l) = 536870912000000 div (tone_period h l * F)"
proof -
  let ?p = "tone_period h l"
  note pF = assms(1)
  have "536870912000000 div (?p * F) \<le> 536870912000000 div 125001"
    using pF by (intro zdiv_mono2) simp_all
  then have "536870912000000 div (?p * F) < 4294967296" by simp
  moreover have "0 \<le> (536870912000000::int) div (?p * F)" using pF by (simp add: pos_imp_zdiv_nonneg_iff)
  ultimately have "uint (word_of_int (536870912000000 div (?p * F)) :: ymu32) = 536870912000000 div (?p * F)"
    by (rule uint_step32 [rotated])
  moreover have "c_div 536870912000000 (?p * F) = 536870912000000 div (?p * F)"
    using pF by (simp add: c_div_pos)
  ultimately show ?thesis using assms(2)
    by (simp add: Ym2149_ToneStepCompute_def Let_def YM_ATARI_CLOCK_def)
qed

text \<open>
  C1 (amended).  A tone period of at most 5 gives the step 0, at every replay
  frequency.  For a replay frequency from 1 Hz to 524287 Hz and a period \<open>p\<close>
  above 5 with \<open>p * freq > 125000\<close>, which is where the quotient fits the 32 bits
  of the result, the step is strictly positive and every larger period has a
  strictly smaller step.  At 22050 Hz and 44100 Hz these are all periods above 5,
  at 11025 Hz the periods from 12 on; the periods 6 to 11 at 11025 Hz give a
  positive step as well.
\<close>

theorem tone_step_amended:
  "(tone_period h l \<le> 5 \<longrightarrow> Ym2149_ToneStepCompute F h l = 0) \<and>
   (0 < F \<and> F \<le> 524287 \<and> 5 < tone_period h l \<and> 125000 < tone_period h l * F \<longrightarrow>
      0 < Ym2149_ToneStepCompute F h l \<and>
      (tone_period h l < tone_period h' l' \<longrightarrow>
         Ym2149_ToneStepCompute F h' l' < Ym2149_ToneStepCompute F h l)) \<and>
   0 < Ym2149_ToneStepCompute 11025 0 6 \<and> 0 < Ym2149_ToneStepCompute 11025 0 7 \<and>
   0 < Ym2149_ToneStepCompute 11025 0 8 \<and> 0 < Ym2149_ToneStepCompute 11025 0 9 \<and>
   0 < Ym2149_ToneStepCompute 11025 0 10 \<and> 0 < Ym2149_ToneStepCompute 11025 0 11"
proof (intro conjI impI)
  show "0 < Ym2149_ToneStepCompute 11025 0 6" "0 < Ym2149_ToneStepCompute 11025 0 7"
    "0 < Ym2149_ToneStepCompute 11025 0 8" "0 < Ym2149_ToneStepCompute 11025 0 9"
    "0 < Ym2149_ToneStepCompute 11025 0 10" "0 < Ym2149_ToneStepCompute 11025 0 11"
    by (simp_all add: tone_period_def Ym2149_ToneStepCompute_def YM_ATARI_CLOCK_def c_div_def)
next
  assume "tone_period h l \<le> 5"
  then show "Ym2149_ToneStepCompute F h l = 0" by (simp add: Ym2149_ToneStepCompute_def)
next
  assume a: "0 < F \<and> F \<le> 524287 \<and> 5 < tone_period h l \<and> 125000 < tone_period h l * F"
  then have F: "0 < F" "F \<le> 524287" and p: "5 < tone_period h l"
    and pF: "125000 < tone_period h l * F" by simp_all
  have "tone_period h l * F \<le> 4095 * 524287"
    using tone_period_range [of h l] F p by (intro mult_mono) simp_all
  then have "1 * (tone_period h l * F) \<le> 536870912000000" by simp
  moreover have "0 < tone_period h l * F" using pF by simp
  ultimately have "1 \<le> 536870912000000 div (tone_period h l * F)"
    by (simp only: le_zdiv_iff)
  then have "0 < uint (Ym2149_ToneStepCompute F h l)"
    using tone_step_uint [OF pF p] by simp
  then show "0 < Ym2149_ToneStepCompute F h l" by (simp add: word_less_def)
next
  assume a: "0 < F \<and> F \<le> 524287 \<and> 5 < tone_period h l \<and> 125000 < tone_period h l * F"
    and lt: "tone_period h l < tone_period h' l'"
  from a have F: "0 < F" "F \<le> 524287" and p: "5 < tone_period h l"
    and pF: "125000 < tone_period h l * F" by simp_all
  let ?p = "tone_period h l" and ?q = "tone_period h' l'"
  have p': "5 < ?q" using p lt by simp
  have "?p * F \<le> ?q * F" using lt F by (simp add: mult_right_mono)
  then have qF: "125000 < ?q * F" using pF by simp
  have q: "?q \<le> 4095" "0 \<le> ?q - 1" "?q - 1 \<le> 4094"
    using tone_period_range [of h' l'] p' by simp_all
  have "?q * (?q - 1) \<le> 4095 * 4094" using q p' by (intro mult_mono) simp_all
  then have qq: "?q * (?q - 1) \<le> 16764930" by simp
  have "?q * (?q - 1) * F \<le> 16764930 * 524287"
    by (rule mult_mono) (use qq F in simp_all)
  then have "?q * (?q - 1) * F \<le> 536870912000000" by simp
  then have "536870912000000 div (?q * F) < 536870912000000 div (?p * F)"
    using p lt F by (intro div_strict_antimono) simp_all
  then have "uint (Ym2149_ToneStepCompute F h' l') < uint (Ym2149_ToneStepCompute F h l)"
    using tone_step_uint [OF pF p] tone_step_uint [OF qF p'] by simp
  then show "Ym2149_ToneStepCompute F h' l' < Ym2149_ToneStepCompute F h l"
    by (simp add: word_less_def)
qed

theorem tone_step_amended_witness:
  "tone_period 0 5 \<le> 5 \<and> Ym2149_ToneStepCompute 11025 0 5 = 0 \<and>
   (0::int) < 11025 \<and> (11025::int) \<le> 524287 \<and> 5 < tone_period 0 12 \<and>
   125000 < tone_period 0 12 * 11025 \<and> tone_period 0 12 < tone_period 0 13 \<and>
   0 < Ym2149_ToneStepCompute 11025 0 12 \<and>
   Ym2149_ToneStepCompute 11025 0 13 < Ym2149_ToneStepCompute 11025 0 12 \<and>
   (0::int) < 44100 \<and> (44100::int) \<le> 524287 \<and> 5 < tone_period 0 6 \<and>
   125000 < tone_period 0 6 * 44100 \<and> tone_period 0 6 < tone_period 1 0 \<and>
   0 < Ym2149_ToneStepCompute 44100 0 6 \<and>
   Ym2149_ToneStepCompute 44100 1 0 < Ym2149_ToneStepCompute 44100 0 6"
proof -
  have z: "tone_period 0 5 \<le> 5" by (simp add: tone_period_def)
  have a: "0 < (11025::int) \<and> (11025::int) \<le> 524287 \<and> 5 < tone_period 0 12 \<and>
      125000 < tone_period 0 12 * 11025" by (simp add: tone_period_def)
  have a': "tone_period 0 12 < tone_period 0 13" by (simp add: tone_period_def)
  have b: "0 < (44100::int) \<and> (44100::int) \<le> 524287 \<and> 5 < tone_period 0 6 \<and>
      125000 < tone_period 0 6 * 44100" by (simp add: tone_period_def)
  have b': "tone_period 0 6 < tone_period 1 0" by (simp add: tone_period_def)
  note t0 = tone_step_amended [of 0 5 11025 0 5, THEN conjunct1, rule_format, OF z]
  note t1 = tone_step_amended [of 0 12 11025 0 13, THEN conjunct2, THEN conjunct1, rule_format, OF a]
  note t2 = tone_step_amended [of 0 6 44100 1 0, THEN conjunct2, THEN conjunct1, rule_format, OF b]
  note t1p = t1 [THEN conjunct1]
  note t1d = t1 [THEN conjunct2, rule_format, OF a']
  note t2p = t2 [THEN conjunct1]
  note t2d = t2 [THEN conjunct2, rule_format, OF b']
  show ?thesis using z a a' b b' t0 t1p t1d t2p t2d by blast
qed

text \<open>
  At 11025 Hz the quotient for the periods 6 to 11 needs more than 32 bits and only
  its low 32 bits are returned: period 11 gives 131921279, period 12 gives
  4057981194, so the step is not decreasing from period 11 to period 12.
\<close>

theorem tone_step_11025_counterexample:
  "5 < tone_period 0 11 \<and> tone_period 0 11 < tone_period 0 12 \<and>
   \<not> Ym2149_ToneStepCompute 11025 0 12 < Ym2149_ToneStepCompute 11025 0 11"
  by (simp add: tone_period_def Ym2149_ToneStepCompute_def YM_ATARI_CLOCK_def c_div_def)

text \<open>
  The bound on \<open>p * freq\<close> is needed for the sign of the step too: where the
  quotient is a multiple of \<open>2 ^ 32\<close> the returned step is 0, as it would be with a
  replay frequency of 15625 Hz at period 8.
\<close>

lemma tone_step_multiple_of_word:
  "tone_period 0 8 * 15625 = 125000 \<and> Ym2149_ToneStepCompute 15625 0 8 = 0"
  by (simp add: tone_period_def Ym2149_ToneStepCompute_def YM_ATARI_CLOCK_def c_div_def)

subsection \<open>Envelope steps\<close>






subsection \<open>Noise steps\<close>

lemma noise_period_range: "0 \<le> uint (r AND 0x1f) \<and> uint ((r::ymu8) AND 0x1f) \<le> 31"
proof -
  have "uint (r AND 0x1f) \<le> uint (0x1f :: ymu8)"
    by (rule word_and_le1 [THEN word_le_def [THEN iffD1]])
  then show ?thesis by simp
qed

lemma noise_step_uint:
  assumes "0 < F" "3 \<le> uint (r AND 0x1f)"
  shows "uint (Ym2149_NoiseStepCompute F r) = 8192000000 div (uint (r AND 0x1f) * F)"
proof -
  let ?p = "uint (r AND 0x1f)"
  have pF: "3 \<le> ?p * F"
  proof -
    have "3 * 1 \<le> ?p * F" using assms by (intro mult_mono) simp_all
    then show ?thesis by simp
  qed
  have "8192000000 div (?p * F) \<le> 8192000000 div 3"
    using pF by (intro zdiv_mono2) simp_all
  then have "8192000000 div (?p * F) < 4294967296" by simp
  moreover have "0 \<le> (8192000000::int) div (?p * F)" using pF by (simp add: pos_imp_zdiv_nonneg_iff)
  ultimately have "uint (word_of_int (8192000000 div (?p * F)) :: ymu32) = 8192000000 div (?p * F)"
    by (rule uint_step32 [rotated])
  moreover have "c_div 8192000000 (?p * F) = 8192000000 div (?p * F)"
    using pF by (simp add: c_div_pos)
  ultimately show ?thesis using assms(2)
    by (simp add: Ym2149_NoiseStepCompute_def Let_def YM_ATARI_CLOCK_def)
qed

lemma noise_step_zero: "uint (r AND 0x1f) < 3 \<Longrightarrow> Ym2149_NoiseStepCompute F r = 0"
  by (simp add: Ym2149_NoiseStepCompute_def)

lemma noise_step_pos:
  assumes "0 < F" "F \<le> 524287" "3 \<le> uint (r AND 0x1f)"
  shows "0 < Ym2149_NoiseStepCompute F r"
proof -
  let ?p = "uint (r AND 0x1f)"
  have "?p * F \<le> 31 * 524287"
    using noise_period_range [of r] assms by (intro mult_mono) simp_all
  then have "1 * (?p * F) \<le> 8192000000" by simp
  moreover have "0 < ?p * F" using assms by simp
  ultimately have "1 \<le> 8192000000 div (?p * F)" by (simp only: le_zdiv_iff)
  then have "0 < uint (Ym2149_NoiseStepCompute F r)"
    using noise_step_uint [OF assms(1) assms(3)] by simp
  then show ?thesis by (simp add: word_less_def)
qed

lemma and_1f_idem: "((d::ymu8) AND 0x1f) AND 0x1f = d AND 0x1f"
  by (simp add: and.assoc)

text \<open>
  C6.  With the noise period \<open>p = data & 0x1f\<close> written to register 6: for
  \<open>p < 3\<close> the noise step is 0, and the write sets the noise position to 0 and the
  current noise level to \<open>0xffff\<close>; for \<open>p \<ge> 3\<close> the noise step is strictly
  positive.  The replay frequency is positive and at most 524287, where the product
  \<^verbatim>\<open>per * YM_REPLAY_FREQ\<close> is an \<^verbatim>\<open>int\<close>.
\<close>

theorem noise_period_floor:
  assumes "0 < F" "F \<le> 524287" "length (SoundRegs st) = 14"
  shows "(uint (data AND 0x1f) < 3 \<longrightarrow>
            Ym2149_NoiseStepCompute F (data AND 0x1f) = 0 \<and>
            noiseStep (Sound_WriteReg F 6 data st) = 0 \<and>
            noisePos (Sound_WriteReg F 6 data st) = 0 \<and>
            currentNoise (Sound_WriteReg F 6 data st) = 0xffff) \<and>
         (3 \<le> uint (data AND 0x1f) \<longrightarrow>
            0 < Ym2149_NoiseStepCompute F (data AND 0x1f) \<and>
            noiseStep (Sound_WriteReg F 6 data st) = Ym2149_NoiseStepCompute F (data AND 0x1f))"
proof (intro conjI impI)
  assume lt: "uint (data AND 0x1f) < 3"
  then have z: "Ym2149_NoiseStepCompute F (data AND 0x1f) = 0"
    by (simp add: noise_step_zero and_1f_idem)
  show "Ym2149_NoiseStepCompute F (data AND 0x1f) = 0" by (rule z)
  show "noiseStep (Sound_WriteReg F 6 data st) = 0"
    using z assms(3) by (simp add: Sound_WriteReg_def Let_def)
  show "noisePos (Sound_WriteReg F 6 data st) = 0"
    using z assms(3) by (simp add: Sound_WriteReg_def Let_def)
  show "currentNoise (Sound_WriteReg F 6 data st) = 0xffff"
    using z assms(3) by (simp add: Sound_WriteReg_def Let_def)
next
  assume ge: "3 \<le> uint (data AND 0x1f)"
  then show "0 < Ym2149_NoiseStepCompute F (data AND 0x1f)"
    using assms by (simp add: noise_step_pos and_1f_idem)
  show "noiseStep (Sound_WriteReg F 6 data st) = Ym2149_NoiseStepCompute F (data AND 0x1f)"
    using assms(3) by (simp add: Sound_WriteReg_def Let_def)
qed

theorem noise_period_floor_witness:
  "(0::int) < 44100 \<and> (44100::int) \<le> 524287 \<and> length (SoundRegs ym_initial) = 14 \<and>
   uint ((2::ymu8) AND 0x1f) < 3 \<and> 3 \<le> uint ((0xe5::ymu8) AND 0x1f) \<and>
   Ym2149_NoiseStepCompute 44100 (2 AND 0x1f) = 0 \<and>
   noisePos (Sound_WriteReg 44100 6 2 ym_initial) = 0 \<and>
   currentNoise (Sound_WriteReg 44100 6 2 ym_initial) = 0xffff \<and>
   0 < Ym2149_NoiseStepCompute 44100 (0xe5 AND 0x1f) \<and>
   noiseStep (Sound_WriteReg 44100 6 0xe5 ym_initial) = Ym2149_NoiseStepCompute 44100 (0xe5 AND 0x1f)"
  using noise_period_floor [of 44100 ym_initial 2] noise_period_floor [of 44100 ym_initial "0xe5"]
  by (simp add: ym_initial_def)

subsection \<open>Fixed volumes\<close>

text \<open>
  C8.  The table \<^verbatim>\<open>YmVolume4to5\<close> has 16 entries, maps 0 to 0 and 15 to 31, and is
  strictly increasing: for \<open>i < j < 16\<close> the entry at \<open>i\<close> is below the entry at \<open>j\<close>.
\<close>

theorem YmVolume4to5_monotone:
  "YmVolume4to5 ! 0 = 0 \<and> YmVolume4to5 ! 15 = 31 \<and> length YmVolume4to5 = 16 \<and>
   (\<forall>i j. i < j \<and> j < 16 \<longrightarrow> YmVolume4to5 ! i < YmVolume4to5 ! j)"
proof -
  have "sorted_wrt (<) YmVolume4to5" by (simp add: YmVolume4to5_def)
  then have "\<forall>i j. i < j \<and> j < 16 \<longrightarrow> YmVolume4to5 ! i < YmVolume4to5 ! j"
    by (simp add: sorted_wrt_iff_nth_less YmVolume4to5_def)
  then show ?thesis by (simp add: YmVolume4to5_def)
qed

theorem YmVolume4to5_monotone_witness:
  "(3::nat) < 7 \<and> (7::nat) < 16 \<and> YmVolume4to5 ! 3 < YmVolume4to5 ! 7 \<and> 
   YmVolume4to5 ! 3 = 7 \<and> YmVolume4to5 ! 7 = 15"
proof -
  have "YmVolume4to5 ! 3 < YmVolume4to5 ! 7" using YmVolume4to5_monotone by simp
  then show ?thesis by (simp add: YmVolume4to5_def)
qed

subsection \<open>Envelope mask and fixed volume of a voice\<close>

lemma mask_set: "((x::ymu16) OR m) AND m = m"
  by (simp add: bit_eq_iff bit_simps) 

lemma mask_clear: "((x::ymu16) AND NOT m) AND m = 0"
  by (simp add: bit_eq_iff bit_simps) 

lemma mask_put: "(y::ymu16) AND m = y \<Longrightarrow> ((x AND NOT m) OR y) AND m = y"
  by (auto simp add: bit_eq_iff bit_simps) 

lemma disjoint_bits: 
  assumes "(m::ymu16) AND m' = 0" shows "\<not> (bit m n \<and> bit m' n)"
proof
  assume b: "bit m n \<and> bit m' n"
  note a = assms
  from b have "bit (m AND m') n" by (simp add: bit_and_iff)
  then show False using a by simp
qed

lemma other_set: "(m::ymu16) AND m' = 0 \<Longrightarrow> (x OR m) AND m' = x AND m'"
  using disjoint_bits [of m m'] by (auto simp add: bit_eq_iff bit_simps)

lemma other_clear: "(m::ymu16) AND m' = 0 \<Longrightarrow> (x AND NOT m) AND m' = x AND m'"
  using disjoint_bits [of m m'] by (auto simp add: bit_eq_iff bit_simps)

lemma other_put: "(m::ymu16) AND m' = 0 \<Longrightarrow> y AND m = y \<Longrightarrow> ((x AND NOT m) OR y) AND m' = x AND m'"
  using disjoint_bits [of m m'] by (auto simp add: bit_eq_iff bit_simps)


lemma masks_disjoint:
  "YM_MASK_A AND YM_MASK_B = 0" "YM_MASK_A AND YM_MASK_C = 0" "YM_MASK_B AND YM_MASK_C = 0"
  "YM_MASK_B AND YM_MASK_A = 0" "YM_MASK_C AND YM_MASK_A = 0" "YM_MASK_C AND YM_MASK_B = 0"
  by (simp_all add: YM_MASK_A_def YM_MASK_B_def YM_MASK_C_def)

lemma voice_mask_disjoint: "u < 3 \<Longrightarrow> v < 3 \<Longrightarrow> u \<noteq> v \<Longrightarrow> voice_mask v AND voice_mask u = 0"
  by (auto simp add: voice_mask_def masks_disjoint)

lemma volume_entry_fits:
  assumes "k < 16" "v < 3"
  shows "push_bit (5 * v) (YmVolume4to5 ! k) AND voice_mask v = push_bit (5 * v) (YmVolume4to5 ! k)"
proof -
  have "list_all (\<lambda>y. y AND YM_MASK_A = y \<and> push_bit 5 y AND YM_MASK_B = push_bit 5 y \<and>
          push_bit 10 y AND YM_MASK_C = push_bit 10 y) YmVolume4to5"
    by (simp add: YmVolume4to5_def YM_MASK_A_def YM_MASK_B_def YM_MASK_C_def)
  then have "YmVolume4to5 ! k AND YM_MASK_A = YmVolume4to5 ! k \<and>
      push_bit 5 (YmVolume4to5 ! k) AND YM_MASK_B = push_bit 5 (YmVolume4to5 ! k) \<and>
      push_bit 10 (YmVolume4to5 ! k) AND YM_MASK_C = push_bit 10 (YmVolume4to5 ! k)"
    using assms(1) by (simp add: list_all_length YmVolume4to5_def)
  moreover have "v = 0 \<or> v = 1 \<or> v = 2" using assms(2) by auto
  ultimately show ?thesis by (auto simp add: voice_mask_def)
qed

lemma fixed_volume_index:
  assumes "(data::ymu8) AND 0x10 = 0"
  shows "unat (data AND 0x1f) < 16"
proof -
  have "(0x1f::ymu8) = 0x0f OR 0x10" by simp
  then have "data AND 0x1f = (data AND 0x0f) OR (data AND 0x10)"
    by (simp only: bit.conj_disj_distrib)
  then have "data AND 0x1f = data AND 0x0f" using assms by simp
  moreover have "unat (data AND 0x0f) \<le> unat (0x0f :: ymu8)"
    by (rule word_and_le1 [THEN word_le_nat_alt [THEN iffD1]])
  ultimately show ?thesis by simp
qed

lemma WriteReg_length [simp]:
  "length (SoundRegs (Sound_WriteReg F reg data st)) = length (SoundRegs st)"
  by (simp add: Sound_WriteReg_def Let_def)

lemma WriteRegs_length [simp]:
  "length (SoundRegs (Sound_WriteRegs F ws st)) = length (SoundRegs st)"
  by (induction ws arbitrary: st) auto

lemma WriteReg_no_amplitude:
  "reg \<noteq> 8 \<Longrightarrow> reg \<noteq> 9 \<Longrightarrow> reg \<noteq> 10 \<Longrightarrow>
   EnvMask3Voices (Sound_WriteReg F reg data st) = EnvMask3Voices st \<and>
   Vol3Voices (Sound_WriteReg F reg data st) = Vol3Voices st"
  by (simp add: Sound_WriteReg_def Let_def)

lemma WriteReg_amplitude_env:
  assumes "v < 3" "data AND 0x10 \<noteq> 0"
  shows "EnvMask3Voices (Sound_WriteReg F (8 + int v) data st) = EnvMask3Voices st OR voice_mask v \<and>
         Vol3Voices (Sound_WriteReg F (8 + int v) data st) = Vol3Voices st AND NOT (voice_mask v)"
proof -
  have "v = 0 \<or> v = 1 \<or> v = 2" using assms(1) by auto
  then show ?thesis using assms(2)
    by (auto simp add: Sound_WriteReg_def Let_def voice_mask_def)
qed

lemma WriteReg_amplitude_fixed:
  assumes "v < 3" "data AND 0x10 = 0" "length (SoundRegs st) = 14"
  shows "EnvMask3Voices (Sound_WriteReg F (8 + int v) data st) = EnvMask3Voices st AND NOT (voice_mask v) \<and>
         Vol3Voices (Sound_WriteReg F (8 + int v) data st) =
           (Vol3Voices st AND NOT (voice_mask v)) OR push_bit (5 * v) (YmVolume4to5 ! unat (data AND 0x1f))"
proof -
  have "v = 0 \<or> v = 1 \<or> v = 2" using assms(1) by auto
  then show ?thesis using assms(2,3)
    by (auto simp add: Sound_WriteReg_def Let_def voice_mask_def)
qed


lemma WriteReg_amplitude_other:
  assumes "v < 3" "u < 3" "u \<noteq> v" "length (SoundRegs st) = 14"
  shows "EnvMask3Voices (Sound_WriteReg F (8 + int v) data st) AND voice_mask u =
           EnvMask3Voices st AND voice_mask u \<and>
         Vol3Voices (Sound_WriteReg F (8 + int v) data st) AND voice_mask u =
           Vol3Voices st AND voice_mask u"
proof (cases "data AND 0x10 = 0")
  case True
  have fits: "push_bit (5 * v) (YmVolume4to5 ! unat (data AND 0x1f)) AND voice_mask v =
      push_bit (5 * v) (YmVolume4to5 ! unat (data AND 0x1f))"
    using fixed_volume_index [OF True] assms(1) by (rule volume_entry_fits)
  show ?thesis
    using WriteReg_amplitude_fixed [OF assms(1) True assms(4), of F]
      voice_mask_disjoint [OF assms(2) assms(1) assms(3)] fits
    by (simp add: other_clear other_put)
next
  case False
  show ?thesis
    using WriteReg_amplitude_env [OF assms(1) False, of F st]
      voice_mask_disjoint [OF assms(2) assms(1) assms(3)]
    by (simp add: other_clear other_set)
qed

lemma WriteReg_exclusive:
  assumes inv: "\<And>u. u < 3 \<Longrightarrow>
      EnvMask3Voices st AND voice_mask u = 0 \<or> Vol3Voices st AND voice_mask u = 0"
    and len: "length (SoundRegs st) = 14" and u: "u < 3"
  shows "EnvMask3Voices (Sound_WriteReg F reg data st) AND voice_mask u = 0 \<or>
         Vol3Voices (Sound_WriteReg F reg data st) AND voice_mask u = 0"
proof (cases "reg = 8 \<or> reg = 9 \<or> reg = 10")
  case False
  then show ?thesis using WriteReg_no_amplitude [of reg F data st] inv [OF u] by simp
next
  case True
  then have "\<exists>v<3. reg = 8 + int v"
  proof (elim disjE)
    assume "reg = 8" then show ?thesis by (intro exI [of _ 0]) simp
  next
    assume "reg = 9" then show ?thesis by (intro exI [of _ 1]) simp
  next
    assume "reg = 10" then show ?thesis by (intro exI [of _ 2]) simp
  qed
  then obtain v where v: "v < 3" "reg = 8 + int v" by blast
  show ?thesis
  proof (cases "u = v")
    case False
    then show ?thesis
      using WriteReg_amplitude_other [OF v(1) u False len, of F data] inv [OF u] v(2) by simp
  next
    case True
    show ?thesis
    proof (cases "data AND 0x10 = 0")
      case True
      then show ?thesis
        using WriteReg_amplitude_fixed [OF v(1) True len, of F] \<open>u = v\<close> v(2)
        by (simp add: mask_clear)
    next
      case False
      then show ?thesis
        using WriteReg_amplitude_env [OF v(1) False, of F st] \<open>u = v\<close> v(2)
        by (simp add: mask_clear)
    qed
  qed
qed

lemma WriteRegs_exclusive:
  assumes "\<And>u. u < 3 \<Longrightarrow>
      EnvMask3Voices st AND voice_mask u = 0 \<or> Vol3Voices st AND voice_mask u = 0"
    and "length (SoundRegs st) = 14" and "u < 3"
  shows "EnvMask3Voices (Sound_WriteRegs F ws st) AND voice_mask u = 0 \<or>
         Vol3Voices (Sound_WriteRegs F ws st) AND voice_mask u = 0"
  using assms
proof (induction ws arbitrary: st u)
  case Nil
  then show ?case by simp
next
  case (Cons w ws)
  obtain reg data where w: "w = (reg, data)" by (cases w)
  have "EnvMask3Voices (Sound_WriteRegs F ws (Sound_WriteReg F reg data st)) AND voice_mask u = 0 \<or>
        Vol3Voices (Sound_WriteRegs F ws (Sound_WriteReg F reg data st)) AND voice_mask u = 0"
  proof (rule Cons.IH)
    fix u' :: nat assume "u' < 3"
    then show "EnvMask3Voices (Sound_WriteReg F reg data st) AND voice_mask u' = 0 \<or>
        Vol3Voices (Sound_WriteReg F reg data st) AND voice_mask u' = 0"
      using Cons.prems(1,2) by (intro WriteReg_exclusive) simp_all
  next
    show "length (SoundRegs (Sound_WriteReg F reg data st)) = 14" using Cons.prems(2) by simp
  next
    show "u < 3" by (rule Cons.prems(3))
  qed
  then show ?case by (simp add: w)
qed

text \<open>
  C7.  For each voice \<open>v\<close> of the three, after any sequence of register writes
  from the start of the program, the field of the voice in \<^verbatim>\<open>EnvMask3Voices\<close> or
  its field in \<^verbatim>\<open>Vol3Voices\<close> is zero.  A write to the amplitude register
  \<open>8 + v\<close> with bit 4 set fills the field of the envelope mask and clears the
  fixed volume; with bit 4 clear it clears the field of the envelope mask and
  stores the expanded volume; in both cases the fields of the two other voices stay
  as they were.
\<close>

theorem amplitude_mode_exclusive:
  assumes "v < 3" 
  shows "(EnvMask3Voices (Sound_WriteRegs F ws ym_initial) AND voice_mask v = 0 \<or>
          Vol3Voices (Sound_WriteRegs F ws ym_initial) AND voice_mask v = 0) \<and>
         (data AND 0x10 \<noteq> 0 \<longrightarrow>
            EnvMask3Voices (Sound_WriteReg F (8 + int v) data (Sound_WriteRegs F ws ym_initial))
              AND voice_mask v = voice_mask v \<and>
            Vol3Voices (Sound_WriteReg F (8 + int v) data (Sound_WriteRegs F ws ym_initial))
              AND voice_mask v = 0) \<and>
         (data AND 0x10 = 0 \<longrightarrow>
            EnvMask3Voices (Sound_WriteReg F (8 + int v) data (Sound_WriteRegs F ws ym_initial))
              AND voice_mask v = 0 \<and>
            Vol3Voices (Sound_WriteReg F (8 + int v) data (Sound_WriteRegs F ws ym_initial))
              AND voice_mask v = push_bit (5 * v) (YmVolume4to5 ! unat (data AND 0x1f))) \<and>
         (\<forall>u. u < 3 \<and> u \<noteq> v \<longrightarrow>
            EnvMask3Voices (Sound_WriteReg F (8 + int v) data (Sound_WriteRegs F ws ym_initial))
              AND voice_mask u = EnvMask3Voices (Sound_WriteRegs F ws ym_initial) AND voice_mask u \<and>
            Vol3Voices (Sound_WriteReg F (8 + int v) data (Sound_WriteRegs F ws ym_initial))
              AND voice_mask u = Vol3Voices (Sound_WriteRegs F ws ym_initial) AND voice_mask u)"
proof -
  let ?st = "Sound_WriteRegs F ws ym_initial"
  have len: "length (SoundRegs ?st) = 14" by (simp add: ym_initial_def)
  have "EnvMask3Voices ?st AND voice_mask v = 0 \<or> Vol3Voices ?st AND voice_mask v = 0"
    by (rule WriteRegs_exclusive) (simp_all add: ym_initial_def assms)
  moreover have "data AND 0x10 \<noteq> 0 \<longrightarrow>
      EnvMask3Voices (Sound_WriteReg F (8 + int v) data ?st) AND voice_mask v = voice_mask v \<and>
      Vol3Voices (Sound_WriteReg F (8 + int v) data ?st) AND voice_mask v = 0"
    using WriteReg_amplitude_env [OF assms, of data F ?st] by (simp add: mask_set mask_clear)
  moreover have "data AND 0x10 = 0 \<longrightarrow>
      EnvMask3Voices (Sound_WriteReg F (8 + int v) data ?st) AND voice_mask v = 0 \<and>
      Vol3Voices (Sound_WriteReg F (8 + int v) data ?st) AND voice_mask v =
        push_bit (5 * v) (YmVolume4to5 ! unat (data AND 0x1f))"
  proof
    assume z: "data AND 0x10 = 0"
    have "push_bit (5 * v) (YmVolume4to5 ! unat (data AND 0x1f)) AND voice_mask v =
        push_bit (5 * v) (YmVolume4to5 ! unat (data AND 0x1f))"
      using fixed_volume_index [OF z] assms by (rule volume_entry_fits)
    then show "EnvMask3Voices (Sound_WriteReg F (8 + int v) data ?st) AND voice_mask v = 0 \<and>
      Vol3Voices (Sound_WriteReg F (8 + int v) data ?st) AND voice_mask v =
        push_bit (5 * v) (YmVolume4to5 ! unat (data AND 0x1f))"
      using WriteReg_amplitude_fixed [OF assms z len] by (simp add: mask_clear mask_put)
  qed
  moreover have "\<forall>u. u < 3 \<and> u \<noteq> v \<longrightarrow>
      EnvMask3Voices (Sound_WriteReg F (8 + int v) data ?st) AND voice_mask u =
        EnvMask3Voices ?st AND voice_mask u \<and>
      Vol3Voices (Sound_WriteReg F (8 + int v) data ?st) AND voice_mask u =
        Vol3Voices ?st AND voice_mask u"
    using WriteReg_amplitude_other [OF assms _ _ len] by blast
  ultimately show ?thesis by blast
qed


theorem amplitude_mode_exclusive_witness:
  "(1::nat) < 3 \<and> (0x13::ymu8) AND 0x10 \<noteq> 0 \<and> (0x05::ymu8) AND 0x10 = 0 \<and> (0::nat) < 3 \<and> (0::nat) \<noteq> 1 \<and>
   (EnvMask3Voices (Sound_WriteRegs 44100 [(8, 0x1f), (9, 0x0c)] ym_initial) AND voice_mask 1 = 0 \<or>
    Vol3Voices (Sound_WriteRegs 44100 [(8, 0x1f), (9, 0x0c)] ym_initial) AND voice_mask 1 = 0) \<and>
   EnvMask3Voices (Sound_WriteReg 44100 (8 + int 1) 0x13
      (Sound_WriteRegs 44100 [(8, 0x1f), (9, 0x0c)] ym_initial)) AND voice_mask 1 = voice_mask 1 \<and>
   Vol3Voices (Sound_WriteReg 44100 (8 + int 1) 0x13
      (Sound_WriteRegs 44100 [(8, 0x1f), (9, 0x0c)] ym_initial)) AND voice_mask 1 = 0 \<and>
   EnvMask3Voices (Sound_WriteReg 44100 (8 + int 1) 0x05
      (Sound_WriteRegs 44100 [(8, 0x1f), (9, 0x0c)] ym_initial)) AND voice_mask 1 = 0 \<and>
   Vol3Voices (Sound_WriteReg 44100 (8 + int 1) 0x05
      (Sound_WriteRegs 44100 [(8, 0x1f), (9, 0x0c)] ym_initial)) AND voice_mask 1 =
      push_bit (5 * 1) (YmVolume4to5 ! unat ((0x05::ymu8) AND 0x1f)) \<and>
   EnvMask3Voices (Sound_WriteReg 44100 (8 + int 1) 0x05
      (Sound_WriteRegs 44100 [(8, 0x1f), (9, 0x0c)] ym_initial)) AND voice_mask 0 =
     EnvMask3Voices (Sound_WriteRegs 44100 [(8, 0x1f), (9, 0x0c)] ym_initial) AND voice_mask 0"
proof -
  let ?ws = "[(8, 0x1f), (9, 0x0c)] :: (int \<times> ymu8) list"
  have a: "(1::nat) < 3" by simp
  have b: "(0x13::ymu8) AND 0x10 \<noteq> 0" by simp
  have c: "(0x05::ymu8) AND 0x10 = 0" by simp
  have d: "(0::nat) < 3 \<and> (0::nat) \<noteq> 1" by simp
  note t1 = amplitude_mode_exclusive [OF a, of 44100 ?ws "0x13"]
  note t2 = amplitude_mode_exclusive [OF a, of 44100 ?ws "0x05"]
  note e1 = t1 [THEN conjunct1]
  note e2 = t1 [THEN conjunct2, THEN conjunct1, rule_format, OF b]
  note e3 = t2 [THEN conjunct2, THEN conjunct2, THEN conjunct1, rule_format, OF c]
  note e4 = t2 [THEN conjunct2, THEN conjunct2, THEN conjunct2, rule_format, OF d, THEN conjunct1]
  show ?thesis
    using a b c d e1 e2 e3 e4 by (intro conjI) simp_all
qed

subsection \<open>Index into the conversion table\<close>

lemma numeral_mask_5: "(0x1f::'a::len word) = mask 5" by (simp add: mask_eq_exp_minus_1)
lemma numeral_mask_15: "(0x7fff::'a::len word) = mask 15" by (simp add: mask_eq_exp_minus_1)

lemma voice_bits_A: "ucast ((bt::ymu32) AND 0x1f) AND (0x7fff::ymu16) = ucast (bt AND 0x1f)"
  by (auto simp add: numeral_mask_5 numeral_mask_15 bit_eq_iff bit_simps) 

lemma voice_bits_B: "ucast (push_bit 5 ((bt::ymu32) AND 0x1f)) AND (0x7fff::ymu16) = ucast (push_bit 5 (bt AND 0x1f))"
  by (auto simp add: numeral_mask_5 numeral_mask_15 bit_eq_iff bit_simps) 

lemma voice_bits_C: "ucast (push_bit 10 ((bt::ymu32) AND 0x1f)) AND (0x7fff::ymu16) = ucast (push_bit 10 (bt AND 0x1f))"
  by (auto simp add: numeral_mask_5 numeral_mask_15 bit_eq_iff bit_simps) 

lemma fits15_le: "(x::ymu16) AND 0x7fff = x \<Longrightarrow> unat x < 32 * 32 * 32"
proof -
  assume a: "x AND 0x7fff = x"
  have "unat (x AND 0x7fff) \<le> unat (0x7fff :: ymu16)"
    by (rule word_and_le1 [THEN word_le_nat_alt [THEN iffD1]])
  then show ?thesis using a by simp
qed

lemma fits15_or: "(x::ymu16) AND 0x7fff = x \<Longrightarrow> y AND 0x7fff = y \<Longrightarrow> (x OR y) AND 0x7fff = x OR y"
  by (simp add: bit.conj_disj_distrib2)

lemma fits15_and: "(x::ymu16) AND 0x7fff = x \<Longrightarrow> (x AND y) AND 0x7fff = x AND y"
  by (metis and.assoc and.commute)

lemma Tone3Voices_fits: "Tone3Voices st AND 0x7fff = Tone3Voices st"
  unfolding Tone3Voices_def Let_def YM_MASK_1VOICE_def
  by (intro fits15_and fits15_or voice_bits_A voice_bits_B voice_bits_C)

lemma merge_voice_bound:
  assumes "0 \<le> v" "v \<le> 31"
  shows "unat (word_of_int (YM_MERGE_VOICE v v v) :: ymu16) < 32768"
proof -
  have v: "v < 32" using assms by simp
  have a: "push_bit 10 v < 2 ^ 15" using v by (simp add: push_bit_eq_mult)
  have b: "push_bit 5 v < 2 ^ 15" using v by (simp add: push_bit_eq_mult)
  have c: "v < 2 ^ 15" using v by simp
  have nn: "0 \<le> push_bit 10 v" "0 \<le> push_bit 5 v" using assms by simp_all
  have ab: "push_bit 10 v OR push_bit 5 v < 2 ^ 15" using nn(1) a b by (rule OR_upper)
  have nab: "0 \<le> push_bit 10 v OR push_bit 5 v" using nn by simp
  have "(push_bit 10 v OR push_bit 5 v) OR v < 2 ^ 15" using nab ab c by (rule OR_upper)
  moreover have "0 \<le> (push_bit 10 v OR push_bit 5 v) OR v" using nn assms by simp
  ultimately have "0 \<le> YM_MERGE_VOICE v v v" "YM_MERGE_VOICE v v v < 32768"
    by (simp_all add: YM_MERGE_VOICE_def or.assoc)
  then show ?thesis by (simp add: unat_eq_nat_uint uint_word_of_int take_bit_eq_mod)
qed

lemma env_block_bound:
  "(\<And>k. k < n \<Longrightarrow> 0 \<le> vol + int k * inc \<and> vol + int k * inc \<le> 31) \<Longrightarrow>
   list_all (\<lambda>e. unat e < 32768) (env_block n vol inc)"
proof (induction n arbitrary: vol)
  case 0
  then show ?case by simp
next
  case (Suc n)
  have "0 \<le> vol" "vol \<le> 31" using Suc.prems [of 0] by simp_all
  then have hd: "unat (word_of_int (YM_MERGE_VOICE vol vol vol) :: ymu16) < 32768"
    by (rule merge_voice_bound)
  have "list_all (\<lambda>e. unat e < 32768) (env_block n (vol + inc) inc)"
  proof (rule Suc.IH)
    fix k assume "k < n"
    then show "0 \<le> vol + inc + int k * inc \<and> vol + inc + int k * inc \<le> 31"
      using Suc.prems [of "Suc k"] by (simp add: algebra_simps)
  qed
  then show ?case using hd by simp
qed

lemma env_block_length: "length (env_block n vol inc) = n"
  by (induction n arbitrary: vol) simp_all

lemma env_kind_block:
  "list_all (\<lambda>e. unat e < 32768) (env_block 32 (fst (env_start k)) (snd (env_start k)))"
proof (cases k)
  case ENV_GODOWN
  have "list_all (\<lambda>e. unat e < 32768) (env_block 32 31 (- 1))" by (rule env_block_bound) auto
  then show ?thesis using ENV_GODOWN by simp
next
  case ENV_GOUP
  have "list_all (\<lambda>e. unat e < 32768) (env_block 32 0 1)" by (rule env_block_bound) auto
  then show ?thesis using ENV_GOUP by simp
next
  case ENV_DOWN
  have "list_all (\<lambda>e. unat e < 32768) (env_block 32 0 0)" by (rule env_block_bound) auto
  then show ?thesis using ENV_DOWN by simp
next
  case ENV_UP
  have "list_all (\<lambda>e. unat e < 32768) (env_block 32 31 0)" by (rule env_block_bound) auto
  then show ?thesis using ENV_UP by simp
qed

lemma env_table: "list_all (list_all (\<lambda>e. unat e < 32768)) YM2149_EnvBuild"
  unfolding YM2149_EnvBuild_def
  by (simp add: list_all_iff case_prod_unfold env_kind_block [unfolded list_all_iff])

lemma upt_3: "[0 ..< 3] = [0, 1, 2]"
  by (simp add: upt_rec)

lemma env_table_size:
  "length YM2149_EnvBuild = 16 \<and> list_all (\<lambda>row. length row = 3 * 32) YM2149_EnvBuild"
  unfolding YM2149_EnvBuild_def
  by (simp add: list_all_iff upt_3 case_prod_unfold env_block_length)


lemma fits15_sub: "(y::ymu16) AND m = y \<Longrightarrow> m AND 0x7fff = m \<Longrightarrow> y AND 0x7fff = y"
  by (metis and.assoc)

lemma voice_mask_fits: "voice_mask v AND 0x7fff = voice_mask v"
  by (simp add: voice_mask_def YM_MASK_A_def YM_MASK_B_def YM_MASK_C_def)

lemma WriteReg_fits15:
  assumes "EnvMask3Voices st AND 0x7fff = EnvMask3Voices st"
    and "Vol3Voices st AND 0x7fff = Vol3Voices st" and len: "length (SoundRegs st) = 14"
  shows "EnvMask3Voices (Sound_WriteReg F reg data st) AND 0x7fff =
           EnvMask3Voices (Sound_WriteReg F reg data st) \<and>
         Vol3Voices (Sound_WriteReg F reg data st) AND 0x7fff =
           Vol3Voices (Sound_WriteReg F reg data st)"
proof (cases "reg = 8 \<or> reg = 9 \<or> reg = 10")
  case False
  then show ?thesis using WriteReg_no_amplitude [of reg F data st] assms by simp
next
  case True
  then have "\<exists>v<3. reg = 8 + int v"
  proof (elim disjE)
    assume "reg = 8" then show ?thesis by (intro exI [of _ 0]) simp
  next
    assume "reg = 9" then show ?thesis by (intro exI [of _ 1]) simp
  next
    assume "reg = 10" then show ?thesis by (intro exI [of _ 2]) simp
  qed
  then obtain v where v: "v < 3" "reg = 8 + int v" by blast
  show ?thesis
  proof (cases "data AND 0x10 = 0")
    case True
    have "push_bit (5 * v) (YmVolume4to5 ! unat (data AND 0x1f)) AND voice_mask v =
        push_bit (5 * v) (YmVolume4to5 ! unat (data AND 0x1f))"
      using fixed_volume_index [OF True] v(1) by (rule volume_entry_fits)
    then have "push_bit (5 * v) (YmVolume4to5 ! unat (data AND 0x1f)) AND 0x7fff =
        push_bit (5 * v) (YmVolume4to5 ! unat (data AND 0x1f))"
      using voice_mask_fits by (rule fits15_sub)
    then show ?thesis
      using WriteReg_amplitude_fixed [OF v(1) True len, of F] v(2) assms(1,2)
      by (simp add: fits15_and fits15_or)
  next
    case False
    then show ?thesis
      using WriteReg_amplitude_env [OF v(1) False, of F st] v(2) assms(1,2) voice_mask_fits [of v]
      by (simp add: fits15_and fits15_or)
  qed
qed

lemma WriteRegs_fits15:
  assumes "EnvMask3Voices st AND 0x7fff = EnvMask3Voices st"
    and "Vol3Voices st AND 0x7fff = Vol3Voices st" and "length (SoundRegs st) = 14"
  shows "EnvMask3Voices (Sound_WriteRegs F ws st) AND 0x7fff =
           EnvMask3Voices (Sound_WriteRegs F ws st) \<and>
         Vol3Voices (Sound_WriteRegs F ws st) AND 0x7fff =
           Vol3Voices (Sound_WriteRegs F ws st)"
  using assms
proof (induction ws arbitrary: st)
  case Nil
  then show ?case by simp
next
  case (Cons w ws)
  obtain reg data where w: "w = (reg, data)" by (cases w)
  have "EnvMask3Voices (Sound_WriteRegs F ws (Sound_WriteReg F reg data st)) AND 0x7fff =
           EnvMask3Voices (Sound_WriteRegs F ws (Sound_WriteReg F reg data st)) \<and>
        Vol3Voices (Sound_WriteRegs F ws (Sound_WriteReg F reg data st)) AND 0x7fff =
           Vol3Voices (Sound_WriteRegs F ws (Sound_WriteReg F reg data st))"
    using WriteReg_fits15 [OF Cons.prems, of F reg data] Cons.prems(3)
    by (intro Cons.IH) simp_all
  then show ?case by (simp add: w)
qed

text \<open>
  C10.  In every state the index \<^verbatim>\<open>Tone3Voices\<close>, with which \<^verbatim>\<open>YM2149_NextSample\<close>
  reads \<^verbatim>\<open>ymout5\<close>, is below \<open>32 * 32 * 32\<close>, the size of the table: the three
  masked fields of 5 bits at the offsets 0, 5 and 10 leave bit 15 clear.  The
  entries of the envelope table, and \<^verbatim>\<open>EnvMask3Voices\<close> and \<^verbatim>\<open>Vol3Voices\<close> after any
  sequence of register writes, stay below that bound too.
\<close>

theorem Tone3Voices_in_table:
  "unat (Tone3Voices st) < 32 * 32 * 32 \<and>
   list_all (list_all (\<lambda>e. unat e < 32 * 32 * 32)) YM2149_EnvBuild \<and>
   unat (EnvMask3Voices (Sound_WriteRegs F ws ym_initial)) < 32 * 32 * 32 \<and>
   unat (Vol3Voices (Sound_WriteRegs F ws ym_initial)) < 32 * 32 * 32"
proof -
  have "unat (Tone3Voices st) < 32 * 32 * 32"
    using Tone3Voices_fits by (rule fits15_le)
  moreover have "list_all (list_all (\<lambda>e. unat e < 32 * 32 * 32)) YM2149_EnvBuild"
    using env_table by simp
  moreover have ev: "EnvMask3Voices (Sound_WriteRegs F ws ym_initial) AND 0x7fff =
           EnvMask3Voices (Sound_WriteRegs F ws ym_initial) \<and>
         Vol3Voices (Sound_WriteRegs F ws ym_initial) AND 0x7fff =
           Vol3Voices (Sound_WriteRegs F ws ym_initial)"
    by (rule WriteRegs_fits15) (simp_all add: ym_initial_def)
  moreover have "unat (EnvMask3Voices (Sound_WriteRegs F ws ym_initial)) < 32 * 32 * 32"
    using ev [THEN conjunct1] by (rule fits15_le)
  moreover have "unat (Vol3Voices (Sound_WriteRegs F ws ym_initial)) < 32 * 32 * 32"
    using ev [THEN conjunct2] by (rule fits15_le)
  ultimately show ?thesis by blast
qed

subsection \<open>Loop of the envelope\<close>

lemma env_step_le:
  assumes "7813 \<le> F"
  shows "unat (Ym2149_EnvStepCompute F h l) \<le> 64 * 2 ^ 24"
proof -
  define per where "per = push_bit 8 (uint h) + uint l"
  have per0: "0 \<le> per" by (simp add: per_def)
  define d where "d = (if per > 0 then 8 * per * F else 4 * F)"
  have d: "4 * 7813 \<le> d"
  proof (cases "per > 0")
    case True
    then have "1 \<le> per" by simp
    then have "1 * 7813 \<le> per * F" using assms by (intro mult_mono) simp_all
    then have "4 * 7813 \<le> 8 * (per * F)" by linarith
    then show ?thesis using True by (simp add: d_def mult.assoc)
  next
    case False
    then show ?thesis using assms by (simp add: d_def)
  qed
  have "33554432000000 div d \<le> 33554432000000 div (4 * 7813)"
    using d by (intro zdiv_mono2) simp_all
  then have le: "33554432000000 div d \<le> 1073741824" by simp
  have nn: "0 \<le> (33554432000000::int) div d"
    using d by (simp add: pos_imp_zdiv_nonneg_iff)
  have u: "uint (word_of_int (33554432000000 div d) :: ymu32) = 33554432000000 div d"
    using nn le by (intro uint_step32) simp_all
  have c: "c_div 33554432000000 d = 33554432000000 div d"
    using d by (intro c_div_pos) simp_all
  have c4: "c_div 8 2 = 4" by (simp add: c_div_def)
  have "Ym2149_EnvStepCompute F h l = word_of_int (c_div 33554432000000 d)"
    by (simp add: Ym2149_EnvStepCompute_def Let_def YM_ATARI_CLOCK_def d_def per_def c4)
  then have "uint (Ym2149_EnvStepCompute F h l) = 33554432000000 div d"
    by (simp only: c u)
  then have "uint (Ym2149_EnvStepCompute F h l) \<le> 1073741824" using le by simp
  then have "int (unat (Ym2149_EnvStepCompute F h l)) \<le> 1073741824" by (simp only: uint_nat)
  then have "unat (Ym2149_EnvStepCompute F h l) \<le> 1073741824" by linarith
  then show ?thesis by simp
qed

lemma env_advance_unat:
  assumes "unat pos < 96 * 2 ^ 24" "unat step \<le> 64 * 2 ^ 24"
  shows "unat (env_advance pos step) =
     (if 96 * 2 ^ 24 \<le> unat pos + unat step then unat pos + unat step - 64 * 2 ^ 24
      else unat pos + unat step)"
proof -
  have "unat pos + unat step < 2 ^ LENGTH(32)" using assms by simp
  then have sum: "unat (pos + step) = unat pos + unat step"
    by (simp only: unat_add_lem)
  show ?thesis
  proof (cases "96 * 2 ^ 24 \<le> unat pos + unat step")
    case True
    then have ge: "(0x60000000::ymu32) \<le> pos + step"
      using sum by (simp add: word_le_nat_alt)
    then have "(0x40000000::ymu32) \<le> pos + step" by (simp add: word_le_nat_alt)
    then have "unat (pos + step - 0x40000000) = unat (pos + step) - unat (0x40000000::ymu32)"
      by (rule unat_sub)
    then show ?thesis using True ge sum by (simp add: env_advance_def Let_def)
  next
    case False
    then have "\<not> (0x60000000::ymu32) \<le> pos + step"
      using sum by (simp add: word_le_nat_alt)
    then show ?thesis using False sum by (simp add: env_advance_def Let_def)
  qed
qed

lemma NextSample_env:
  "envPos (snd (YM2149_NextSample ymout5 st)) = env_advance (envPos st) (envStep st) \<and>
   envStep (snd (YM2149_NextSample ymout5 st)) = envStep st"
  by (simp add: YM2149_NextSample_def Let_def noise_tick_def YM2149_RndCompute_def
      advance_positions_def DcAdjuster_AddSample_def LowPassFilter_def split: prod.splits)


lemma env_index: "unat (drop_bit 24 (p::ymu32)) = unat p div 16777216"
  by (simp add: drop_bit_eq_div unat_div)

lemma wrap_arith:
  fixes P S :: nat
  assumes "P < 1610612736" "S \<le> 1073741824" "1610612736 \<le> P + S"
  shows "536870912 \<le> P + S - 1073741824" "P + S - 1073741824 < 1610612736"
  using assms by linarith+

lemma index_arith:
  fixes N :: nat
  shows "N < 1610612736 \<Longrightarrow> N div 16777216 \<le> 95"
    and "536870912 \<le> N \<Longrightarrow> 32 \<le> N div 16777216"
    and "32 \<le> N div 16777216 \<Longrightarrow> 536870912 \<le> N"
  by arith+

lemma NextSample_env_unat:
  assumes "unat (envPos st) < 96 * 2 ^ 24" "unat (envStep st) \<le> 64 * 2 ^ 24"
  shows "unat (envPos (snd (YM2149_NextSample ymout5 st))) =
     (if 96 * 2 ^ 24 \<le> unat (envPos st) + unat (envStep st)
      then unat (envPos st) + unat (envStep st) - 64 * 2 ^ 24
      else unat (envPos st) + unat (envStep st))"
  using env_advance_unat [OF assms] by (simp only: NextSample_env)

lemma NextSample_env_range:
  assumes "unat (envPos st) < 96 * 2 ^ 24" "unat (envStep st) \<le> 64 * 2 ^ 24"
  shows "unat (envPos (snd (YM2149_NextSample ymout5 st))) < 1610612736"
    and "536870912 \<le> unat (envPos st) \<Longrightarrow>
           536870912 \<le> unat (envPos (snd (YM2149_NextSample ymout5 st)))"
    and "1610612736 \<le> unat (envPos st) + unat (envStep st) \<Longrightarrow>
           536870912 \<le> unat (envPos (snd (YM2149_NextSample ymout5 st)))"
proof -
  let ?P = "unat (envPos st)" and ?S = "unat (envStep st)"
  have P: "?P < 1610612736" and S: "?S \<le> 1073741824" using assms by simp_all
  note one = NextSample_env_unat [OF assms, of ymout5]
  show "unat (envPos (snd (YM2149_NextSample ymout5 st))) < 1610612736"
  proof (cases "1610612736 \<le> ?P + ?S")
    case True
    then show ?thesis using one wrap_arith(2) [OF P S True] by simp
  next
    case False
    then show ?thesis using one by simp
  qed
  show "536870912 \<le> unat (envPos (snd (YM2149_NextSample ymout5 st)))"
    if "1610612736 \<le> ?P + ?S"
    using one wrap_arith(1) [OF P S that] that by simp
  show "536870912 \<le> unat (envPos (snd (YM2149_NextSample ymout5 st)))"
    if "536870912 \<le> ?P"
  proof (cases "1610612736 \<le> ?P + ?S")
    case True
    then show ?thesis using one wrap_arith(1) [OF P S True] by simp
  next
    case False
    then show ?thesis using one that by simp
  qed
qed


text \<open>
  In every state the program reaches, for a replay frequency of at least 7813 Hz,
  the position of the envelope is inside the three blocks, its step is at most
  two blocks and the shape is one of the 16, so that the read of the envelope
  table in \<^verbatim>\<open>YM2149_NextSample\<close> is inside the table.
\<close>

lemma shape_range: "0 \<le> uint ((d::ymu8) AND 0xf) \<and> uint (d AND 0xf) < 16"
proof -
  have "uint (d AND 0xf) \<le> uint (0xf :: ymu8)"
    by (rule word_and_le1 [THEN word_le_def [THEN iffD1]])
  then show ?thesis by simp
qed

lemma WriteReg_envelope:
  assumes "7813 \<le> F" "unat (envPos st) < 96 * 2 ^ 24" "unat (envStep st) \<le> 64 * 2 ^ 24"
    "0 \<le> envShape st \<and> envShape st < 16" "length (SoundRegs st) = 14"
  shows "unat (envPos (Sound_WriteReg F reg data st)) < 96 * 2 ^ 24 \<and>
         unat (envStep (Sound_WriteReg F reg data st)) \<le> 64 * 2 ^ 24 \<and>
         0 \<le> envShape (Sound_WriteReg F reg data st) \<and>
         envShape (Sound_WriteReg F reg data st) < 16"
proof -
  have e: "\<And>h l. unat (Ym2149_EnvStepCompute F h l) \<le> 1073741824"
    using env_step_le [OF assms(1)] by simp
  have s: "0 \<le> uint (data AND 0xf) \<and> uint (data AND 0xf) < 16" by (rule shape_range)
  show ?thesis using assms(2-5) e s
    by (simp add: Sound_WriteReg_def Let_def)
qed

lemma NextSample_other:
  "envShape (snd (YM2149_NextSample ymout5 st)) = envShape st \<and>
   SoundRegs (snd (YM2149_NextSample ymout5 st)) = SoundRegs st"
  by (simp add: YM2149_NextSample_def Let_def noise_tick_def YM2149_RndCompute_def
      advance_positions_def DcAdjuster_AddSample_def LowPassFilter_def split: prod.splits)

lemma run_actions_envelope:
  assumes "7813 \<le> F"
    and "unat (envPos st) < 96 * 2 ^ 24 \<and> unat (envStep st) \<le> 64 * 2 ^ 24 \<and>
         0 \<le> envShape st \<and> envShape st < 16 \<and> length (SoundRegs st) = 14"
  shows "unat (envPos (run_actions F ymout5 acts st)) < 96 * 2 ^ 24 \<and>
         unat (envStep (run_actions F ymout5 acts st)) \<le> 64 * 2 ^ 24 \<and>
         0 \<le> envShape (run_actions F ymout5 acts st) \<and>
         envShape (run_actions F ymout5 acts st) < 16 \<and>
         length (SoundRegs (run_actions F ymout5 acts st)) = 14"
  using assms(2)
proof (induction acts arbitrary: st)
  case Nil
  then show ?case by simp
next
  case (Cons a acts)
  show ?case
  proof (cases a)
    case (Write_reg reg data)
    have "unat (envPos (Sound_WriteReg F reg data st)) < 96 * 2 ^ 24 \<and>
        unat (envStep (Sound_WriteReg F reg data st)) \<le> 64 * 2 ^ 24 \<and>
        0 \<le> envShape (Sound_WriteReg F reg data st) \<and>
        envShape (Sound_WriteReg F reg data st) < 16 \<and>
        length (SoundRegs (Sound_WriteReg F reg data st)) = 14"
      using WriteReg_envelope [OF assms(1), of st reg data] Cons.prems by simp
    then show ?thesis using Cons.IH Write_reg by simp
  next
    case Next_sample
    let ?st = "snd (YM2149_NextSample ymout5 st)"
    have "unat (envPos ?st) < 96 * 2 ^ 24"
      using NextSample_env_range(1) [of st ymout5] Cons.prems by simp
    moreover have "unat (envStep ?st) \<le> 64 * 2 ^ 24"
      using Cons.prems by (simp only: NextSample_env)
    ultimately have "unat (envPos ?st) < 96 * 2 ^ 24 \<and> unat (envStep ?st) \<le> 64 * 2 ^ 24 \<and>
        0 \<le> envShape ?st \<and> envShape ?st < 16 \<and> length (SoundRegs ?st) = 14"
      using Cons.prems by (simp only: NextSample_other)
    then show ?thesis using Cons.IH Next_sample by simp
  qed
qed

lemma reachable_envelope:
  assumes "7813 \<le> F"
  shows "unat (envPos (run_actions F ymout5 acts ym_initial)) < 96 * 2 ^ 24 \<and>
         unat (envStep (run_actions F ymout5 acts ym_initial)) \<le> 64 * 2 ^ 24 \<and>
         0 \<le> envShape (run_actions F ymout5 acts ym_initial) \<and>
         envShape (run_actions F ymout5 acts ym_initial) < 16 \<and>
         length (SoundRegs (run_actions F ymout5 acts ym_initial)) = 14"
  by (rule run_actions_envelope [OF assms]) (simp add: ym_initial_def)

lemma reachable_envelope_read:
  assumes "7813 \<le> F" "st = run_actions F ymout5 acts ym_initial"
  shows "nat (envShape st) < length YM2149_EnvBuild \<and>
         unat (drop_bit 24 (envPos st)) < length (YM2149_EnvBuild ! nat (envShape st))"
proof -
  note r = reachable_envelope [OF assms(1), of ymout5 acts, folded assms(2)]
  have sh: "nat (envShape st) < 16" using r by linarith
  have "unat (envPos st) < 1610612736" using r by simp
  then have "unat (drop_bit 24 (envPos st)) \<le> 95"
    using index_arith(1) by (simp only: env_index)
  moreover have "length (YM2149_EnvBuild ! nat (envShape st)) = 3 * 32"
    using env_table_size sh by (simp add: list_all_length)
  ultimately show ?thesis using sh env_table_size by simp
qed




subsection \<open>Samples of a frame\<close>

lemma generate_loop_counters:
  "nGeneratedSamples (generate_loop cfg ymout5 i k s) = nGeneratedSamples s \<and>
   nSamplesToGenerate (generate_loop cfg ymout5 i k s) = nSamplesToGenerate s \<and>
   ActiveSndBufIdx (generate_loop cfg ymout5 i k s) = ActiveSndBufIdx s \<and>
   Cycles_Sound (generate_loop cfg ymout5 i k s) = Cycles_Sound s"
  by (induction k arbitrary: i s) (simp_all add: Let_def split: prod.splits)

lemma GenerateSamples_count:
  "nGeneratedSamples (Sound_GenerateSamples cfg ymout5 s) =
     nGeneratedSamples s + (if nSamplesToGenerate s \<le> 0 then 0 else nSamplesToGenerate s)"
  by (simp add: Sound_GenerateSamples_def Let_def generate_loop_counters)

lemma SetSamplesPassed_fields:
  "nGeneratedSamples (Sound_SetSamplesPassed cfg s) = nGeneratedSamples s"
  by (simp add: Sound_SetSamplesPassed_def Let_def)

lemma SetSamplesPassed_clamp:
  "nSamplesToGenerate (Sound_SetSamplesPassed cfg s) \<le>
     max 0 (MIXBUFFER_SIZE cfg - nGeneratedSamples s)"
  by (simp add: Sound_SetSamplesPassed_def Let_def)

text \<open>
  C4 (amended).  For every value of the cycle counter and of \<^verbatim>\<open>nGeneratedSamples\<close>,
  the number of samples that \<^verbatim>\<open>Sound_Update\<close> generates, which is the growth of
  \<^verbatim>\<open>nGeneratedSamples\<close>, is never negative and never exceeds the room
  \<open>MIXBUFFER_SIZE - nGeneratedSamples\<close> when that room is not negative; then
  \<^verbatim>\<open>nGeneratedSamples\<close> stays within \<^verbatim>\<open>MIXBUFFER_SIZE\<close>.  When \<^verbatim>\<open>nGeneratedSamples\<close> is
  already above \<^verbatim>\<open>MIXBUFFER_SIZE\<close> the room is negative and no sample is generated.
\<close>

theorem ring_buffer_clamp:
  "0 \<le> nGeneratedSamples (Sound_Update cfg ymout5 s) - nGeneratedSamples s \<and>
   nGeneratedSamples (Sound_Update cfg ymout5 s) - nGeneratedSamples s
     \<le> max 0 (MIXBUFFER_SIZE cfg - nGeneratedSamples s) \<and>
   (nGeneratedSamples s \<le> MIXBUFFER_SIZE cfg \<longrightarrow>
      nGeneratedSamples (Sound_Update cfg ymout5 s) - nGeneratedSamples s
        \<le> MIXBUFFER_SIZE cfg - nGeneratedSamples s \<and>
      nGeneratedSamples (Sound_Update cfg ymout5 s) \<le> MIXBUFFER_SIZE cfg) \<and>
   (MIXBUFFER_SIZE cfg < nGeneratedSamples s \<longrightarrow>
      nGeneratedSamples (Sound_Update cfg ymout5 s) = nGeneratedSamples s)"
proof -
  let ?s1 = "Sound_SetSamplesPassed cfg s"
  have c: "nSamplesToGenerate ?s1 \<le> max 0 (MIXBUFFER_SIZE cfg - nGeneratedSamples s)"
    by (rule SetSamplesPassed_clamp)
  have "nGeneratedSamples (Sound_Update cfg ymout5 s) =
      nGeneratedSamples s + (if nSamplesToGenerate ?s1 \<le> 0 then 0 else nSamplesToGenerate ?s1)"
    by (simp add: Sound_Update_def GenerateSamples_count SetSamplesPassed_fields)
  then show ?thesis using c by (auto simp add: max_def split: if_splits)
qed

theorem ring_buffer_clamp_witness:
  "nGeneratedSamples (sound_initial\<lparr>Cycles_Sound := 160256, nGeneratedSamples := 8000\<rparr>)
     \<le> MIXBUFFER_SIZE cfg_44100 \<and>
   nGeneratedSamples (Sound_Update cfg_44100 ymout5_silent
     (sound_initial\<lparr>Cycles_Sound := 160256, nGeneratedSamples := 8000\<rparr>)) \<le> MIXBUFFER_SIZE cfg_44100 \<and>
   MIXBUFFER_SIZE cfg_44100 < nGeneratedSamples (sound_initial\<lparr>nGeneratedSamples := 8193\<rparr>) \<and>
   nGeneratedSamples (Sound_Update cfg_44100 ymout5_silent (sound_initial\<lparr>nGeneratedSamples := 8193\<rparr>)) =
     nGeneratedSamples (sound_initial\<lparr>nGeneratedSamples := 8193\<rparr>)"
proof -
  let ?s = "sound_initial\<lparr>Cycles_Sound := 160256, nGeneratedSamples := 8000\<rparr>"
  let ?t = "sound_initial\<lparr>nGeneratedSamples := 8193\<rparr>"
  have h1: "nGeneratedSamples ?s \<le> MIXBUFFER_SIZE cfg_44100" by (simp add: cfg_44100_def)
  have h2: "MIXBUFFER_SIZE cfg_44100 < nGeneratedSamples ?t" by (simp add: cfg_44100_def)
  note a = ring_buffer_clamp [of cfg_44100 ymout5_silent ?s, THEN conjunct2, THEN conjunct2, THEN conjunct1,
      rule_format, OF h1, THEN conjunct2]
  note b = ring_buffer_clamp [of cfg_44100 ymout5_silent ?t, THEN conjunct2, THEN conjunct2, THEN conjunct2,
      rule_format, OF h2]
  show ?thesis using h1 h2 a b by blast
qed

text \<open>
  With 8193 samples counted in a buffer of 8192, the test \<^verbatim>\<open>nSamplesToGenerate < 0\<close>
  sets the count to 0, which is above the room of \<open>-1\<close>.
\<close>

theorem ring_buffer_overfull_counterexample:
  "nGeneratedSamples (Sound_Update cfg_44100 ymout5_silent (sound_initial\<lparr>nGeneratedSamples := 8193\<rparr>))
      - nGeneratedSamples (sound_initial\<lparr>nGeneratedSamples := 8193\<rparr>) = 0 \<and>
   MIXBUFFER_SIZE cfg_44100 - nGeneratedSamples (sound_initial\<lparr>nGeneratedSamples := 8193\<rparr>) = - 1 \<and>
   \<not> nGeneratedSamples (Sound_Update cfg_44100 ymout5_silent (sound_initial\<lparr>nGeneratedSamples := 8193\<rparr>))
      - nGeneratedSamples (sound_initial\<lparr>nGeneratedSamples := 8193\<rparr>)
    \<le> MIXBUFFER_SIZE cfg_44100 - nGeneratedSamples (sound_initial\<lparr>nGeneratedSamples := 8193\<rparr>)"
proof -
  have i: "int32 0 = 0" by (simp add: int32_def)
  show ?thesis
    by (simp add: Sound_Update_def Sound_GenerateSamples_def Sound_SetSamplesPassed_def Let_def
        cfg_44100_def sound_initial_def SAMPLES_PER_FRAME_def c_div_def i)
qed


subsection \<open>Cycles of a frame\<close>

lemma int32_id: "- 2147483648 \<le> x \<Longrightarrow> x < 2147483648 \<Longrightarrow> int32 x = x"
  by (simp add: int32_def)

lemma frame_products:
  fixes c C S :: int
  assumes C: "0 < C" and S: "0 < S" and c: "0 \<le> c"
    and cS: "c * S < 2147483648" and SC: "S * C < 2147483648"
  shows "int32 (c * S) = c * S"
    and "int32 (min (c * S div C) S * C) = min (c * S div C) S * C"
proof -
  have "0 \<le> c * S" using c S by simp
  then show "int32 (c * S) = c * S" using cS by (intro int32_id) simp_all
  have q0: "0 \<le> c * S div C" using C S c by (simp add: pos_imp_zdiv_nonneg_iff)
  have n0: "0 \<le> min (c * S div C) S" using q0 S by simp
  have "min (c * S div C) S * C \<le> S * C" using C by (intro mult_right_mono) simp_all
  then have "min (c * S div C) S * C < 2147483648" using SC by simp
  moreover have "0 \<le> min (c * S div C) S * C" using n0 C by simp
  ultimately show "int32 (min (c * S div C) S * C) = min (c * S div C) S * C"
    by (intro int32_id) simp_all
qed

lemma SetSamplesPassed_cycles:
  assumes C: "0 < CYCLES_PER_FRAME cfg" and S: "0 < SAMPLES_PER_FRAME cfg"
    and c: "0 \<le> Cycles_Sound s"
    and cS: "Cycles_Sound s * SAMPLES_PER_FRAME cfg < 2147483648"
    and SC: "SAMPLES_PER_FRAME cfg * CYCLES_PER_FRAME cfg < 2147483648"
  shows "Cycles_Sound (Sound_SetSamplesPassed cfg s) =
     Cycles_Sound s -
       min (Cycles_Sound s * SAMPLES_PER_FRAME cfg div CYCLES_PER_FRAME cfg) (SAMPLES_PER_FRAME cfg)
         * CYCLES_PER_FRAME cfg div SAMPLES_PER_FRAME cfg"
proof -
  let ?C = "CYCLES_PER_FRAME cfg" and ?S = "SAMPLES_PER_FRAME cfg" and ?c = "Cycles_Sound s"
  note i = frame_products [OF C S c cS SC]
  have q: "c_div (?c * ?S) ?C = ?c * ?S div ?C"
    using C S c by (intro c_div_pos) simp_all
  have q0: "0 \<le> ?c * ?S div ?C" using C S c by (simp add: pos_imp_zdiv_nonneg_iff)
  have m: "(if ?c * ?S div ?C > ?S then ?S else ?c * ?S div ?C) = min (?c * ?S div ?C) ?S"
    by (simp add: min_def)
  have "0 \<le> min (?c * ?S div ?C) ?S * ?C" using q0 S C by simp
  then have r: "c_div (min (?c * ?S div ?C) ?S * ?C) ?S = min (?c * ?S div ?C) ?S * ?C div ?S"
    using S by (rule c_div_pos)
  have "Cycles_Sound (Sound_SetSamplesPassed cfg s) =
      ?c - c_div (int32 ((if c_div (int32 (?c * ?S)) ?C > ?S then ?S
                          else c_div (int32 (?c * ?S)) ?C) * ?C)) ?S"
    by (simp add: Sound_SetSamplesPassed_def Let_def)
  also have "\<dots> = ?c - c_div (int32 (min (?c * ?S div ?C) ?S * ?C)) ?S"
    by (simp only: i(1) q m)
  also have "\<dots> = ?c - min (?c * ?S div ?C) ?S * ?C div ?S" by (simp only: i(2) r)
  finally show ?thesis .
qed

lemma SetSamplesPassed_count:
  assumes C: "0 < CYCLES_PER_FRAME cfg" and S: "0 < SAMPLES_PER_FRAME cfg"
    and c: "0 \<le> Cycles_Sound s"
    and cS: "Cycles_Sound s * SAMPLES_PER_FRAME cfg < 2147483648"
    and SC: "SAMPLES_PER_FRAME cfg * CYCLES_PER_FRAME cfg < 2147483648"
  shows "nSamplesToGenerate (Sound_SetSamplesPassed cfg s) =
     (let n = min (Cycles_Sound s * SAMPLES_PER_FRAME cfg div CYCLES_PER_FRAME cfg)
                (SAMPLES_PER_FRAME cfg)
      in if n > MIXBUFFER_SIZE cfg - nGeneratedSamples s
         then max 0 (MIXBUFFER_SIZE cfg - nGeneratedSamples s) else n)"
proof -
  let ?C = "CYCLES_PER_FRAME cfg" and ?S = "SAMPLES_PER_FRAME cfg" and ?c = "Cycles_Sound s"
  note i = frame_products [OF C S c cS SC]
  have q: "c_div (?c * ?S) ?C = ?c * ?S div ?C"
    using C S c by (intro c_div_pos) simp_all
  have m: "(if ?c * ?S div ?C > ?S then ?S else ?c * ?S div ?C) = min (?c * ?S div ?C) ?S"
    by (simp add: min_def)
  have "nSamplesToGenerate (Sound_SetSamplesPassed cfg s) =
      (let n = (if c_div (int32 (?c * ?S)) ?C > ?S then ?S else c_div (int32 (?c * ?S)) ?C)
       in if n > MIXBUFFER_SIZE cfg - nGeneratedSamples s
          then max 0 (MIXBUFFER_SIZE cfg - nGeneratedSamples s) else n)"
    by (simp add: Sound_SetSamplesPassed_def Let_def max_def)
  then show ?thesis by (simp only: i(1) q m)
qed

lemma carry_arith:
  fixes c C S :: int
  assumes C: "0 < C" and S: "0 < S" and c: "0 \<le> c"
  shows "0 \<le> c - min (c * S div C) S * C div S"
    and "c * S div C \<le> S \<Longrightarrow> (c - min (c * S div C) S * C div S) * S < C + S"
proof -
  define q where "q = c * S div C"
  define n where "n = min q S"
  define r where "r = n * C div S"
  have qC: "q * C \<le> c * S" unfolding q_def using C le_zdiv_iff [of C "c * S div C" "c * S"] by simp
  have q0: "0 \<le> q" unfolding q_def using C S c by (simp add: pos_imp_zdiv_nonneg_iff)
  have "n \<le> q" by (simp add: n_def)
  then have "n * C \<le> q * C" using C by (simp add: mult_right_mono)
  then have nC: "n * C \<le> c * S" using qC by simp
  then have "n * C div S \<le> c * S div S" using S by (rule zdiv_mono1)
  then have "r \<le> c" using S by (simp add: r_def)
  then show "0 \<le> c - min (c * S div C) S * C div S" by (simp add: r_def n_def q_def)
  show "(c - min (c * S div C) S * C div S) * S < C + S" if "c * S div C \<le> S"
  proof -
    have nq: "n = q" using that by (simp add: n_def q_def)
    have "c * S = C * q + c * S mod C" unfolding q_def by simp
    moreover have "c * S mod C < C" using C by simp
    ultimately have 1: "c * S < q * C + C" by (simp add: mult.commute)
    have "q * C = S * r + q * C mod S" unfolding r_def nq by simp
    moreover have "q * C mod S < S" using S by simp
    ultimately have 2: "q * C < r * S + S" by (simp add: mult.commute)
    have "c * S < r * S + S + C" using 1 2 by linarith
    then have "(c - r) * S < C + S" by (simp add: algebra_simps)
    moreover have "min (c * S div C) S = c * S div C" using that by simp
    ultimately show ?thesis by (simp only: r_def nq q_def)
  qed
qed

text \<open>
  C3 (amended).  The cycle counter is not negative and the products
  \<open>cycles * samples_per_frame\<close> and \<open>samples_per_frame * cycles_per_frame\<close> are
  below \<open>2 ^ 31\<close>, so that no product of \<^verbatim>\<open>Sound_SetSamplesPassed\<close> leaves the
  range of \<^verbatim>\<open>int\<close>.  Then the count is \<open>cycles * samples_per_frame /
  cycles_per_frame\<close>, at most the samples of one frame.  The cycles of that count,
  as it is before the room of the ring buffer limits it, are subtracted from the
  counter; the count left in \<^verbatim>\<open>nSamplesToGenerate\<close> is that count limited to the
  room of the ring buffer.  The counter stays non-negative, and when the frame
  limit did not apply it keeps less than the cycles of one sample plus one: the
  remainder of the division is carried to the next call.
\<close>

theorem cycles_carried_forward:
  assumes "0 < CYCLES_PER_FRAME cfg" "0 < SAMPLES_PER_FRAME cfg" "0 \<le> Cycles_Sound s"
    and "Cycles_Sound s * SAMPLES_PER_FRAME cfg < 2 ^ 31"
    and "SAMPLES_PER_FRAME cfg * CYCLES_PER_FRAME cfg < 2 ^ 31"
  shows "Cycles_Sound (Sound_SetSamplesPassed cfg s) =
           Cycles_Sound s -
             min (Cycles_Sound s * SAMPLES_PER_FRAME cfg div CYCLES_PER_FRAME cfg)
                 (SAMPLES_PER_FRAME cfg)
               * CYCLES_PER_FRAME cfg div SAMPLES_PER_FRAME cfg \<and>
         nSamplesToGenerate (Sound_SetSamplesPassed cfg s) =
           (let n = min (Cycles_Sound s * SAMPLES_PER_FRAME cfg div CYCLES_PER_FRAME cfg)
                      (SAMPLES_PER_FRAME cfg)
            in if n > MIXBUFFER_SIZE cfg - nGeneratedSamples s
               then max 0 (MIXBUFFER_SIZE cfg - nGeneratedSamples s) else n) \<and>
         0 \<le> Cycles_Sound (Sound_SetSamplesPassed cfg s) \<and>
         (Cycles_Sound s * SAMPLES_PER_FRAME cfg div CYCLES_PER_FRAME cfg \<le> SAMPLES_PER_FRAME cfg \<longrightarrow>
            Cycles_Sound (Sound_SetSamplesPassed cfg s) * SAMPLES_PER_FRAME cfg
              < CYCLES_PER_FRAME cfg + SAMPLES_PER_FRAME cfg)"
proof -
  have cS: "Cycles_Sound s * SAMPLES_PER_FRAME cfg < 2147483648" using assms(4) by simp
  have SC: "SAMPLES_PER_FRAME cfg * CYCLES_PER_FRAME cfg < 2147483648" using assms(5) by simp
  show ?thesis
    using SetSamplesPassed_cycles [OF assms(1-3) cS SC]
      SetSamplesPassed_count [OF assms(1-3) cS SC] carry_arith [OF assms(1-3)]
    by simp
qed

theorem cycles_carried_forward_witness:
  "0 < CYCLES_PER_FRAME cfg_44100 \<and> 0 < SAMPLES_PER_FRAME cfg_44100 \<and>
   0 \<le> Cycles_Sound (sound_initial\<lparr>Cycles_Sound := 160300, nGeneratedSamples := 8000\<rparr>) \<and>
   Cycles_Sound (sound_initial\<lparr>Cycles_Sound := 160300, nGeneratedSamples := 8000\<rparr>)
     * SAMPLES_PER_FRAME cfg_44100 < 2 ^ 31 \<and>
   SAMPLES_PER_FRAME cfg_44100 * CYCLES_PER_FRAME cfg_44100 < 2 ^ 31 \<and>
   Cycles_Sound (sound_initial\<lparr>Cycles_Sound := 160300, nGeneratedSamples := 8000\<rparr>)
     * SAMPLES_PER_FRAME cfg_44100 div CYCLES_PER_FRAME cfg_44100 \<le> SAMPLES_PER_FRAME cfg_44100 \<and>
   0 \<le> Cycles_Sound (Sound_SetSamplesPassed cfg_44100
          (sound_initial\<lparr>Cycles_Sound := 160300, nGeneratedSamples := 8000\<rparr>)) \<and>
   Cycles_Sound (Sound_SetSamplesPassed cfg_44100
          (sound_initial\<lparr>Cycles_Sound := 160300, nGeneratedSamples := 8000\<rparr>))
     * SAMPLES_PER_FRAME cfg_44100 < CYCLES_PER_FRAME cfg_44100 + SAMPLES_PER_FRAME cfg_44100"
proof -
  let ?s = "sound_initial\<lparr>Cycles_Sound := 160300, nGeneratedSamples := 8000\<rparr>"
  have spf: "SAMPLES_PER_FRAME cfg_44100 = 882"
    by (simp add: SAMPLES_PER_FRAME_def cfg_44100_def c_div_def)
  have cpf: "CYCLES_PER_FRAME cfg_44100 = 160256" by (simp add: cfg_44100_def)
  have h1: "0 < CYCLES_PER_FRAME cfg_44100" by (simp add: cpf)
  have h2: "0 < SAMPLES_PER_FRAME cfg_44100" by (simp add: spf)
  have h3: "0 \<le> Cycles_Sound ?s" by simp
  have h5: "Cycles_Sound ?s * SAMPLES_PER_FRAME cfg_44100 < 2 ^ 31" by (simp add: spf)
  have h6: "SAMPLES_PER_FRAME cfg_44100 * CYCLES_PER_FRAME cfg_44100 < 2 ^ 31"
    by (simp add: spf cpf)
  have h4: "Cycles_Sound ?s * SAMPLES_PER_FRAME cfg_44100 div CYCLES_PER_FRAME cfg_44100
      \<le> SAMPLES_PER_FRAME cfg_44100"
    by (simp add: spf cpf)
  note t = cycles_carried_forward [OF h1 h2 h3 h5 h6]
  note a = t [THEN conjunct2, THEN conjunct2, THEN conjunct1]
  note b = t [THEN conjunct2, THEN conjunct2, THEN conjunct2, rule_format, OF h4]
  show ?thesis using h1 h2 h3 h4 h5 h6 a b by blast
qed

text \<open>
  With one frame of cycles and room for 192 samples only, 192 samples are
  generated, which are 34885 cycles, but the counter loses all 160256 cycles.
\<close>

theorem cycles_ring_clamp_counterexample:
  "nSamplesToGenerate (Sound_SetSamplesPassed cfg_44100
      (sound_initial\<lparr>Cycles_Sound := 160256, nGeneratedSamples := 8000\<rparr>)) = 192 \<and>
   Cycles_Sound (Sound_SetSamplesPassed cfg_44100
      (sound_initial\<lparr>Cycles_Sound := 160256, nGeneratedSamples := 8000\<rparr>)) = 0 \<and>
   c_div (192 * CYCLES_PER_FRAME cfg_44100) (SAMPLES_PER_FRAME cfg_44100) = 34885 \<and>
   Cycles_Sound (Sound_SetSamplesPassed cfg_44100
      (sound_initial\<lparr>Cycles_Sound := 160256, nGeneratedSamples := 8000\<rparr>)) \<noteq>
     Cycles_Sound (sound_initial\<lparr>Cycles_Sound := 160256, nGeneratedSamples := 8000\<rparr>)
       - c_div (nSamplesToGenerate (Sound_SetSamplesPassed cfg_44100
            (sound_initial\<lparr>Cycles_Sound := 160256, nGeneratedSamples := 8000\<rparr>))
          * CYCLES_PER_FRAME cfg_44100) (SAMPLES_PER_FRAME cfg_44100)"
proof -
  have i: "int32 141345792 = 141345792" by (simp add: int32_def)
  show ?thesis
    by (simp add: Sound_SetSamplesPassed_def Let_def cfg_44100_def
        SAMPLES_PER_FRAME_def c_div_def i)
qed

text \<open>
  Beyond the bound the product of cycles and samples per frame does not fit: with
  2434789 cycles it is negative in 32 bits, the count is \<open>-13400\<close> and the counter
  grows to 4869517.
\<close>

lemma SetSamplesPassed_product_wraps:
  "Cycles_Sound (sound_initial\<lparr>Cycles_Sound := 2434789\<rparr>) * SAMPLES_PER_FRAME cfg_44100
     = 2 ^ 31 + 250 \<and>
   nSamplesToGenerate (Sound_SetSamplesPassed cfg_44100
      (sound_initial\<lparr>Cycles_Sound := 2434789\<rparr>)) = - 13400 \<and>
   Cycles_Sound (Sound_SetSamplesPassed cfg_44100
      (sound_initial\<lparr>Cycles_Sound := 2434789\<rparr>)) = 4869517"
proof -
  have i: "int32 2147483898 = - 2147483398" "int32 (- 2147430400) = - 2147430400"
    by (simp_all add: int32_def)
  show ?thesis
    by (simp add: Sound_SetSamplesPassed_def Let_def cfg_44100_def sound_initial_def
        SAMPLES_PER_FRAME_def c_div_def i)
qed

subsection \<open>Start of a recording\<close>

text \<open>
  C9 (amended).  \<^verbatim>\<open>Sound_BeginRecording\<close> returns \<^verbatim>\<open>FALSE\<close> exactly when no file name
  is given, or the name has at most 3 characters, or the name matches neither
  extension, or the format writer chosen by the extension returns \<^verbatim>\<open>FALSE\<close>.  In
  the failures it finds itself (no name, a short name, neither extension) it only
  reports the message and leaves the state of the sound as it is.
\<close>

theorem begin_recording_result:
  "(\<not> fst (Sound_BeginRecording matches ym_begin wav_open name w) \<longleftrightarrow>
      name = None \<or> length (the name) \<le> 3 \<or>
      (\<not> matches (the name) ''.ym'' \<and> \<not> matches (the name) ''.wav'') \<or>
      (matches (the name) ''.ym'' \<and> \<not> fst (ym_begin (the name) w)) \<or>
      (\<not> matches (the name) ''.ym'' \<and> matches (the name) ''.wav'' \<and>
         \<not> fst (wav_open (the name) w))) \<and>
   (name = None \<or> length (the name) \<le> 3 \<longrightarrow>
      snd (Sound_BeginRecording matches ym_begin wav_open name w) =
        w\<lparr>messages := messages w @ [Illegal_sound_recording_file_name]\<rparr> \<and>
      sound (snd (Sound_BeginRecording matches ym_begin wav_open name w)) = sound w) \<and>
   (name \<noteq> None \<and> 3 < length (the name) \<and> \<not> matches (the name) ''.ym'' \<and>
    \<not> matches (the name) ''.wav'' \<longrightarrow>
      snd (Sound_BeginRecording matches ym_begin wav_open name w) =
        w\<lparr>messages := messages w @ [Unknown_Sound_Recording_format]\<rparr> \<and>
      sound (snd (Sound_BeginRecording matches ym_begin wav_open name w)) = sound w)"
proof (cases name)
  case None
  then show ?thesis by (simp add: Sound_BeginRecording_def)
next
  case (Some n)
  show ?thesis
  proof (cases "length n \<le> 3")
    case True
    then show ?thesis using Some by (simp add: Sound_BeginRecording_def)
  next
    case False
    then show ?thesis using Some by (auto simp add: Sound_BeginRecording_def)
  qed
qed

theorem begin_recording_result_witness:
  "length (the (Some ''ym'')) \<le> 3 \<and>
   sound (snd (Sound_BeginRecording ends_with writer_ok writer_ok (Some ''ym'') rec_initial)) =
     sound rec_initial \<and>
   Some ''song.mp3'' \<noteq> None \<and> 3 < length (the (Some ''song.mp3'')) \<and>
   \<not> ends_with (the (Some ''song.mp3'')) ''.ym'' \<and> \<not> ends_with (the (Some ''song.mp3'')) ''.wav'' \<and>
   snd (Sound_BeginRecording ends_with writer_ok writer_ok (Some ''song.mp3'') rec_initial) =
     rec_initial\<lparr>messages := messages rec_initial @ [Unknown_Sound_Recording_format]\<rparr>"
proof -
  have h1: "Some ''ym'' = None \<or> length (the (Some ''ym'')) \<le> 3" by simp
  have h2: "Some ''song.mp3'' \<noteq> None \<and> 3 < length (the (Some ''song.mp3'')) \<and>
      \<not> ends_with (the (Some ''song.mp3'')) ''.ym'' \<and>
      \<not> ends_with (the (Some ''song.mp3'')) ''.wav''"
    by (simp add: ends_with_def)
  note a = begin_recording_result [of ends_with writer_ok writer_ok "Some ''ym''" rec_initial,
      THEN conjunct2, THEN conjunct1, rule_format, OF h1, THEN conjunct2]
  note b = begin_recording_result [of ends_with writer_ok writer_ok "Some ''song.mp3''" rec_initial,
      THEN conjunct2, THEN conjunct2, rule_format, OF h2, THEN conjunct1]
  show ?thesis using h1 h2 a b by simp
qed

text \<open>
  The name \<^verbatim>\<open>.ym\<close> is given and ends with an extension, and is refused for its
  length; the name \<^verbatim>\<open>song.wav\<close> is refused when the writer of the file fails.
\<close>

theorem begin_recording_counterexample:
  "\<not> fst (Sound_BeginRecording ends_with writer_ok writer_ok (Some ''.ym'') rec_initial) \<and>
   Some ''.ym'' \<noteq> None \<and> ends_with ''.ym'' ''.ym'' \<and>
   \<not> fst (Sound_BeginRecording ends_with writer_ok writer_fails (Some ''song.wav'') rec_initial) \<and>
   Some ''song.wav'' \<noteq> None \<and> ends_with ''song.wav'' ''.wav''"
  by (simp add: Sound_BeginRecording_def ends_with_def writer_fails_def)

end
